theory Spec2Isabelle
  imports Main "HOL-Library.AList"
begin

section \<open>Scope and conventions\<close>

text \<open>
  A shallow embedding of the resilience layer and the subscription operations of the 3x-ui
  client. The sources are \<^verbatim>\<open>utils.ts\<close> (the second file of \<^verbatim>\<open>src/unnamed/part_004\<close>),
  \<^verbatim>\<open>client.ts\<close> (the second file of \<^verbatim>\<open>src/xtls-sdk/api/client-api.ts\<close>),
  \<^verbatim>\<open>client-manager.ts\<close> (the second file of \<^verbatim>\<open>src/src/inbound-manager.ts\<close>) and
  \<^verbatim>\<open>types.ts\<close> (\<^verbatim>\<open>src/src/types.ts\<close>).

  \<^item> An asynchronous function is a function of the state it runs in, returning its outcome
    and the state it leaves; every \<^verbatim>\<open>await\<close> is a sequential step, with one call running at
    a time.
  \<^item> A thrown error is the left summand of the outcome.
  \<^item> A number is an \<open>int\<close>: the counters, milliseconds, status codes, identifiers and
    limits of this code are integers, and the arithmetic of the code on them is exact as long
    as the values stay below \<open>2 ^ 53\<close> in size, where a double holds every integer. A test
    of \<^verbatim>\<open>Number.isInteger\<close> or of \<^verbatim>\<open>typeof\<close> on a
    typed value always passes and has no branch in the model.
  \<^item> What the platform provides (the clock, \<^verbatim>\<open>fetch\<close>, timers, random numbers, JSON) is a
    parameter of the model.
  \<^item> Console output is left out, but for the warning of \<^verbatim>\<open>getAllSubscriptions\<close>.
\<close>

section \<open>Errors\<close>

text \<open>
  The error classes of \<^verbatim>\<open>types.ts\<close>: \<^verbatim>\<open>ApiError\<close> and its three subclasses, next to the
  built-in \<^verbatim>\<open>Error\<close>, \<^verbatim>\<open>SyntaxError\<close> (raised by \<^verbatim>\<open>JSON.parse\<close>) and \<^verbatim>\<open>TypeError\<close>.
  \<open>ClsUndefined\<close> stands for the value \<^verbatim>\<open>undefined\<close> when it is thrown.
  An error carries its message, the status code of \<^verbatim>\<open>ApiError\<close> and the field of
  \<^verbatim>\<open>ValidationError\<close>; the response payload kept by \<^verbatim>\<open>ApiError\<close> is never read again
  and is left out.
\<close>

datatype err_class =
  ClsError | ClsSyntax | ClsType | ClsUndefined
  | ClsApi | ClsAuthentication | ClsValidation | ClsNetwork

record error =
  cls :: err_class
  message :: string
  statusCode :: "int option"
  field :: "string option"

definition JsError :: "string \<Rightarrow> error" where
  "JsError m = \<lparr>cls = ClsError, message = m, statusCode = None, field = None\<rparr>"

definition ApiError :: "string \<Rightarrow> int option \<Rightarrow> error" where
  "ApiError m sc = \<lparr>cls = ClsApi, message = m, statusCode = sc, field = None\<rparr>"

definition AuthenticationError :: "string \<Rightarrow> error" where
  "AuthenticationError m =
     \<lparr>cls = ClsAuthentication, message = m, statusCode = Some 401, field = None\<rparr>"

definition ValidationError :: "string \<Rightarrow> string option \<Rightarrow> error" where
  "ValidationError m f =
     \<lparr>cls = ClsValidation, message = m, statusCode = Some 400, field = f\<rparr>"

definition NetworkError :: "string \<Rightarrow> int option \<Rightarrow> error" where
  "NetworkError m sc = \<lparr>cls = ClsNetwork, message = m, statusCode = sc, field = None\<rparr>"

definition thrownUndefined :: error where
  "thrownUndefined = \<lparr>cls = ClsUndefined, message = [], statusCode = None, field = None\<rparr>"

text \<open>An operation on a threaded state: it ends with a value or a thrown error.\<close>

type_synonym ('s, 'a) op = "'s \<Rightarrow> (error + 'a) \<times> 's"

section \<open>utils.ts: retry with backoff\<close>

record retry_options =
  maxRetries :: "int option"
  backoffMs :: "int option"
  retryableErrors :: "(error \<Rightarrow> bool) option"

definition defaultRetryable :: "error \<Rightarrow> bool" where
  "defaultRetryable e \<longleftrightarrow>
     cls e = ClsNetwork \<and> statusCode e \<noteq> Some 401 \<and> statusCode e \<noteq> Some 403"

text \<open>
  The two effects of the backoff: \<open>jitter\<close> is the term \<^verbatim>\<open>Math.random() * 1000\<close> in whole
  milliseconds, \<open>sleep\<close> the suspension \<^verbatim>\<open>setTimeout(resolve, delay)\<close>.
\<close>

record 's timers =
  jitter :: "'s \<Rightarrow> int \<times> 's"
  sleep :: "int \<Rightarrow> 's \<Rightarrow> 's"

function retryLoop ::
  "'s timers \<Rightarrow> int \<Rightarrow> int \<Rightarrow> (error \<Rightarrow> bool) \<Rightarrow> ('s, 'a) op \<Rightarrow> int \<Rightarrow> error \<Rightarrow> ('s, 'a) op"
where
  "retryLoop T maxR backoff retryable fn attempt lastError s =
     (if attempt \<le> maxR then
        (case fn s of
           (Inr r, s1) \<Rightarrow> (Inr r, s1)
         | (Inl e, s1) \<Rightarrow>
             if attempt = maxR \<or> \<not> retryable e then (Inl e, s1)
             else
               (case jitter T s1 of
                  (j, s2) \<Rightarrow>
                    retryLoop T maxR backoff retryable fn (attempt + 1) e
                      (sleep T (backoff * 2 ^ nat attempt + j) s2)))
      else (Inl lastError, s))"
  by pat_completeness auto
termination
  by (relation "measure (\<lambda>(T, maxR, backoff, retryable, fn, attempt, lastError, s).
        nat (maxR + 1 - attempt))") auto

definition resilientApiCall :: "'s timers \<Rightarrow> ('s, 'a) op \<Rightarrow> retry_options \<Rightarrow> ('s, 'a) op" where
  "resilientApiCall T fn options =
     retryLoop T
       (case maxRetries options of None \<Rightarrow> 3 | Some n \<Rightarrow> n)
       (case backoffMs options of None \<Rightarrow> 1000 | Some b \<Rightarrow> b)
       (case retryableErrors options of None \<Rightarrow> defaultRetryable | Some p \<Rightarrow> p)
       fn 0 thrownUndefined"

section \<open>utils.ts: circuit breaker\<close>

record breaker_cfg =
  threshold :: int
  timeout :: int
  name :: string

record breaker =
  failures :: int
  nextAttempt :: int

text \<open>The constructor: the defaults of its parameters, and the fresh state at time \<open>t\<close>.\<close>

definition default_cfg :: breaker_cfg where
  "default_cfg = \<lparr>threshold = 5, timeout = 60000, name = ''unknown''\<rparr>"

definition new_breaker :: "int \<Rightarrow> breaker" where
  "new_breaker t = \<lparr>failures = 0, nextAttempt = t\<rparr>"

definition open_message :: "breaker_cfg \<Rightarrow> string" where
  "open_message c =
     ''Circuit breaker for '' @ name c @ '' is OPEN. Service temporarily unavailable.''"

text \<open>
  \<^verbatim>\<open>call\<close>: \<open>now\<close> reads the clock (\<^verbatim>\<open>Date.now()\<close>) of the threaded state, \<open>fn\<close> is the
  wrapped operation already applied to its arguments.
\<close>

definition call ::
  "('s \<Rightarrow> int) \<Rightarrow> breaker_cfg \<Rightarrow> ('s, 'a) op \<Rightarrow> breaker \<times> 's \<Rightarrow> (error + 'a) \<times> breaker \<times> 's"
where
  "call now c fn = (\<lambda>(b, s).
     if failures b \<ge> threshold c \<and> now s < nextAttempt b then
       (Inl (ApiError (open_message c) None), b, s)
     else
       let b1 = (if failures b \<ge> threshold c then b\<lparr>failures := 0\<rparr> else b) in
       (case fn s of
          (Inr r, s1) \<Rightarrow> (Inr r, b1\<lparr>failures := 0\<rparr>, s1)
        | (Inl e, s1) \<Rightarrow>
            let b2 = b1\<lparr>failures := failures b1 + 1\<rparr> in
            (Inl e,
             if failures b2 \<ge> threshold c then b2\<lparr>nextAttempt := now s1 + timeout c\<rparr> else b2,
             s1)))"

record breaker_status =
  status_failures :: int
  isOpen :: bool
  status_nextAttempt :: "int option"

definition getStatus :: "breaker_cfg \<Rightarrow> breaker \<Rightarrow> int \<Rightarrow> breaker_status" where
  "getStatus c b t =
     (let op = (failures b \<ge> threshold c \<and> t < nextAttempt b) in
      \<lparr>status_failures = failures b, isOpen = op,
       status_nextAttempt = (if op then Some (nextAttempt b) else None)\<rparr>)"

section \<open>Strings\<close>

text \<open>
  A \<open>string\<close> stands for a JavaScript string whose code units are all below 256, one
  \<open>char\<close> per code unit. On that range \<^verbatim>\<open>toLowerCase\<close> maps A-Z and the accented capitals
  192-222 (without the multiplication sign 215) to the letter 32 places further, and the white
  space removed by \<^verbatim>\<open>trim\<close> is tab, line feed, vertical tab, form feed, carriage return,
  space and the no-break space 160.
\<close>

definition lower_char :: "char \<Rightarrow> char" where
  "lower_char c =
     (let n = (of_char c :: nat) in
      if (65 \<le> n \<and> n \<le> 90) \<or> (192 \<le> n \<and> n \<le> 222 \<and> n \<noteq> 215) then char_of (n + 32) else c)"

definition toLowerCase :: "string \<Rightarrow> string" where
  "toLowerCase s = map lower_char s"

definition is_space :: "char \<Rightarrow> bool" where
  "is_space c \<longleftrightarrow> (of_char c :: nat) \<in> {9, 10, 11, 12, 13, 32, 160}"

definition trim :: "string \<Rightarrow> string" where
  "trim s = rev (dropWhile is_space (rev (dropWhile is_space s)))"

primrec str_includes :: "string \<Rightarrow> string \<Rightarrow> bool" where
  "str_includes [] p \<longleftrightarrow> p = []"
| "str_includes (c # cs) p \<longleftrightarrow> take (length p) (c # cs) = p \<or> str_includes cs p"

text \<open>\<^verbatim>\<open>String(n)\<close> and template interpolation of an integer: its decimal digits.\<close>

fun show_nat :: "nat \<Rightarrow> string" where
  "show_nat n =
     (if n < 10 then [char_of (48 + n)] else show_nat (n div 10) @ [char_of (48 + n mod 10)])"

definition show_int :: "int \<Rightarrow> string" where
  "show_int i = (if i < 0 then CHR ''-'' # show_nat (nat (- i)) else show_nat (nat i))"

text \<open>Truthiness of an optional string: \<^verbatim>\<open>undefined\<close>, \<^verbatim>\<open>null\<close> and \<^verbatim>\<open>''\<close> are falsy.\<close>

definition truthy :: "string option \<Rightarrow> bool" where
  "truthy v \<longleftrightarrow> v \<noteq> None \<and> v \<noteq> Some []"

text \<open>A word between double quotes, as some messages carry one.\<close>

definition quoted :: "string \<Rightarrow> string" where
  "quoted s = CHR 0x22 # s @ [CHR 0x22]"

text \<open>\<^verbatim>\<open>v || d\<close> and \<^verbatim>\<open>v ?? d\<close> on an optional value.\<close>

definition or_else :: "string option \<Rightarrow> string \<Rightarrow> string" where
  "or_else v d = (if truthy v then the v else d)"

definition nullish :: "'a option \<Rightarrow> 'a \<Rightarrow> 'a" where
  "nullish v d = (case v of None \<Rightarrow> d | Some x \<Rightarrow> x)"

text \<open>Object spread \<^verbatim>\<open>{...a, ...b}\<close> on string-keyed objects: the keys of \<open>b\<close> override.\<close>

definition spread :: "(string \<times> string) list \<Rightarrow> (string \<times> string) list \<Rightarrow> (string \<times> string) list" where
  "spread a b = fold (\<lambda>kv. AList.update (fst kv) (snd kv)) b a"

section \<open>utils.ts: error helpers\<close>

text \<open>
  \<^verbatim>\<open>createErrorWithContext\<close>: the context, rendered by \<^verbatim>\<open>JSON.stringify\<close> (the parameter
  \<open>render\<close>), is appended to the message of a thrown \<^verbatim>\<open>Error\<close>, which stays the same error
  object; a thrown value that is no \<^verbatim>\<open>Error\<close> (here \<^verbatim>\<open>undefined\<close>) is replaced by a new
  \<^verbatim>\<open>Error\<close> made of the default message and the context. A context object is the list of its
  members.
\<close>

datatype ctx_value = CStr string | CNum int | CNums "int list"

type_synonym err_context = "(string \<times> ctx_value) list"

definition createErrorWithContext ::
  "(err_context \<Rightarrow> string) \<Rightarrow> error \<Rightarrow> err_context \<Rightarrow> string \<Rightarrow> error" where
  "createErrorWithContext render e ctx defaultMessage =
     (let contextString = (if ctx \<noteq> [] then '' Context: '' @ render ctx else [])
      in if cls e \<noteq> ClsUndefined then e\<lparr>message := message e @ contextString\<rparr>
         else JsError (defaultMessage @ contextString))"

text \<open>
  The response of \<^verbatim>\<open>fetch\<close>, as far as the client reads it: \<open>setCookie\<close> is the list
  \<^verbatim>\<open>login\<close> reads from the headers (\<^verbatim>\<open>getSetCookie()\<close>, or the \<^verbatim>\<open>set-cookie\<close> header split at
  commas, or nothing), \<open>body_text\<close> the result of \<^verbatim>\<open>text()\<close>, \<open>None\<close> when it rejects.
\<close>

record response =
  status :: int
  statusText :: string
  setCookie :: "string list"
  body_text :: "string option"

definition ok :: "response \<Rightarrow> bool" where
  "ok r \<longleftrightarrow> 200 \<le> status r \<and> status r \<le> 299"

text \<open>
  \<^verbatim>\<open>handleHttpError\<close> always throws; the model returns the error. \<open>msg\<close> and \<open>fld\<close> are
  \<^verbatim>\<open>responseData?.message\<close> and \<^verbatim>\<open>responseData?.field\<close>.
\<close>

definition handleHttpError :: "response \<Rightarrow> string option \<Rightarrow> string option \<Rightarrow> error" where
  "handleHttpError r msg fld =
     (if status r = 401 then AuthenticationError ''Invalid credentials or session expired''
      else if status r = 403 then AuthenticationError ''Access forbidden. Check your permissions.''
      else if status r = 404 then ApiError ''Resource not found'' (Some (status r))
      else if status r = 422 then ValidationError (or_else msg ''Validation failed'') fld
      else if status r \<ge> 400 \<and> status r < 500 then
        ApiError (or_else msg (''Client error: '' @ statusText r)) (Some (status r))
      else if status r \<ge> 500 then
        NetworkError (or_else msg (''Server error: '' @ statusText r)) (Some (status r))
      else
        NetworkError (''HTTP '' @ show_int (status r) @ '': '' @ statusText r) (Some (status r)))"

section \<open>client.ts: the session and the request path\<close>

record request_init =
  init_method :: "string option"
  init_headers :: "(string \<times> string) list"
  init_body :: "string option"

record http_request =
  url :: string
  init :: request_init

text \<open>
  What one \<^verbatim>\<open>fetch\<close> ends with: a response, the abort fired by the timeout timer, or any
  other rejection with its message.
\<close>

datatype fetch_result = Responded response | Aborted | Rejected string

text \<open>
  The platform under the client, over a world \<open>'w\<close>: the clock, \<^verbatim>\<open>fetch\<close>, the two timers of
  the backoff, \<^verbatim>\<open>URLSearchParams.toString\<close>, \<^verbatim>\<open>JSON.stringify\<close> of a context and
  \<^verbatim>\<open>JSON.parse\<close> of a response body (\<open>None\<close> when it throws) with the two members read from
  the parsed value.
\<close>

record ('w, 'j) sys = "'w timers" +
  clock :: "'w \<Rightarrow> int"
  fetch :: "http_request \<Rightarrow> 'w \<Rightarrow> fetch_result \<times> 'w"
  formEncode :: "(string \<times> string) list \<Rightarrow> string"
  stringify :: "err_context \<Rightarrow> string"
  parseJson :: "string \<Rightarrow> 'j option"
  emptyObject :: 'j
  messageOf :: "'j \<Rightarrow> string option"
  fieldOf :: "'j \<Rightarrow> string option"

record client_config =
  cfg_baseUrl :: string
  cfg_username :: string
  cfg_password :: string
  cfg_timeout :: "int option"
  cfg_retryAttempts :: "int option"
  cfg_retryDelay :: "int option"

record xui =
  baseUrl :: string
  username :: string
  userPassword :: string
  requestTimeout :: int
  retryAttempts :: int
  retryDelay :: int
  sessionCookie :: "string option"
  isAuthenticated :: bool
  lastLoginTime :: int
  circuitBreaker :: breaker

text \<open>The breaker the constructor builds around \<^verbatim>\<open>makeHttpRequest\<close>.\<close>

definition api_breaker :: breaker_cfg where
  "api_breaker = \<lparr>threshold = 5, timeout = 60000, name = ''3x-ui-api''\<rparr>"

definition strip_slash :: "string \<Rightarrow> string" where
  "strip_slash s = (if s \<noteq> [] \<and> last s = CHR ''/'' then butlast s else s)"

definition new_client :: "client_config \<Rightarrow> int \<Rightarrow> error + xui" where
  "new_client config t =
     (if cfg_baseUrl config = [] \<or> cfg_username config = [] \<or> cfg_password config = [] then
        Inl (ValidationError ''baseUrl, username, and password are required'' None)
      else
        Inr \<lparr>baseUrl = strip_slash (cfg_baseUrl config),
             username = cfg_username config,
             userPassword = cfg_password config,
             requestTimeout = nullish (cfg_timeout config) 30000,
             retryAttempts = nullish (cfg_retryAttempts config) 3,
             retryDelay = nullish (cfg_retryDelay config) 1000,
             sessionCookie = None,
             isAuthenticated = False,
             lastLoginTime = 0,
             circuitBreaker = new_breaker t\<rparr>)"

text \<open>The request \<^verbatim>\<open>makeRawRequest\<close> passes to \<^verbatim>\<open>fetch\<close>.\<close>

definition rawRequest :: "xui \<Rightarrow> string \<Rightarrow> request_init \<Rightarrow> http_request" where
  "rawRequest x path ini =
     \<lparr>url = baseUrl x @ path,
      init = ini\<lparr>init_headers :=
        spread [(''User-Agent'', ''3xui-api-client/1.0.0'')] (init_headers ini)\<rparr>\<rparr>"

definition makeRawRequest ::
  "('w, 'j) sys \<Rightarrow> xui \<Rightarrow> string \<Rightarrow> request_init \<Rightarrow> ('w, response) op" where
  "makeRawRequest S x path ini w =
     (case fetch S (rawRequest x path ini) w of
        (Responded r, w1) \<Rightarrow> (Inr r, w1)
      | (Aborted, w1) \<Rightarrow>
          (Inl (NetworkError
             (''Request timeout after '' @ show_int (requestTimeout x) @ ''ms'') None), w1)
      | (Rejected m, w1) \<Rightarrow> (Inl (NetworkError (''Network request failed: '' @ m) None), w1))"

text \<open>The cookie loop of \<^verbatim>\<open>login\<close>: the first cookie naming a session, up to its first \<^verbatim>\<open>;\<close>.\<close>

fun pickCookie :: "string list \<Rightarrow> string" where
  "pickCookie [] = []"
| "pickCookie (c # cs) =
     (if str_includes c ''session'' \<or> str_includes c ''3x-ui'' then takeWhile (\<lambda>ch. ch \<noteq> CHR '';'') c
      else pickCookie cs)"

definition login_init :: "('w, 'j) sys \<Rightarrow> xui \<Rightarrow> request_init" where
  "login_init S x =
     \<lparr>init_method = Some ''POST'',
      init_headers = [(''Content-Type'', ''application/x-www-form-urlencoded'')],
      init_body = Some (formEncode S [(''username'', username x), (''password'', userPassword x)])\<rparr>"

definition login_failed :: "('w, 'j) sys \<Rightarrow> xui \<Rightarrow> error \<Rightarrow> 'w \<Rightarrow> (error + unit) \<times> xui \<times> 'w" where
  "login_failed S x e w =
     (Inl (createErrorWithContext (stringify S) e
             [(''username'', CStr (username x)), (''baseUrl'', CStr (baseUrl x))]
             ''Login failed''),
      x\<lparr>isAuthenticated := False, sessionCookie := None\<rparr>, w)"

definition login :: "('w, 'j) sys \<Rightarrow> (xui \<times> 'w, unit) op" where
  "login S = (\<lambda>(x, w).
     case makeRawRequest S x ''/login'' (login_init S x) w of
       (Inl e, w1) \<Rightarrow> login_failed S x e w1
     | (Inr r, w1) \<Rightarrow>
         let cookie = pickCookie (setCookie r) in
         if cookie = [] then
           login_failed S x (AuthenticationError ''No session cookie received from server'') w1
         else
           (Inr (),
            x\<lparr>sessionCookie := Some cookie, isAuthenticated := True, lastLoginTime := clock S w1\<rparr>,
            w1))"

definition ensureAuthenticated :: "('w, 'j) sys \<Rightarrow> (xui \<times> 'w, unit) op" where
  "ensureAuthenticated S = (\<lambda>(x, w).
     let sessionAge = clock S w - lastLoginTime x; oneHour = 60 * 60 * 1000 in
     if \<not> isAuthenticated x \<or> \<not> truthy (sessionCookie x) \<or> sessionAge > oneHour then login S (x, w)
     else (Inr (), x, w))"

text \<open>The two requests \<^verbatim>\<open>makeHttpRequest\<close> builds: the first one and its replay.\<close>

definition requestInit :: "xui \<Rightarrow> request_init \<Rightarrow> request_init" where
  "requestInit x ini =
     ini\<lparr>init_headers :=
       spread [(''Cookie'', or_else (sessionCookie x) []), (''Content-Type'', ''application/json'')]
         (init_headers ini)\<rparr>"

definition replayInit :: "xui \<Rightarrow> request_init \<Rightarrow> request_init" where
  "replayInit x rini =
     rini\<lparr>init_headers := spread (init_headers rini) [(''Cookie'', or_else (sessionCookie x) [])]\<rparr>"

definition makeHttpRequest ::
  "('w, 'j) sys \<Rightarrow> string \<Rightarrow> request_init \<Rightarrow> (xui \<times> 'w, response) op" where
  "makeHttpRequest S path ini xw =
     (case ensureAuthenticated S xw of
        (Inl e, xw1) \<Rightarrow> (Inl e, xw1)
      | (Inr u, x1, w1) \<Rightarrow>
          (case makeRawRequest S x1 path (requestInit x1 ini) w1 of
             (Inl e, w2) \<Rightarrow> (Inl e, x1, w2)
           | (Inr r, w2) \<Rightarrow>
               if status r = 401 then
                 (case login S (x1\<lparr>isAuthenticated := False, sessionCookie := None\<rparr>, w2) of
                    (Inl e, xw3) \<Rightarrow> (Inl e, xw3)
                  | (Inr u, x3, w3) \<Rightarrow>
                      (case makeRawRequest S x3 path (replayInit x3 (requestInit x1 ini)) w3 of
                         (res, w4) \<Rightarrow> (res, x3, w4)))
               else (Inr r, x1, w2)))"

text \<open>The timers act on the world and leave the client alone.\<close>

definition client_timers :: "('w, 'j) sys \<Rightarrow> (xui \<times> 'w) timers" where
  "client_timers S =
     \<lparr>jitter = (\<lambda>(x, w). case jitter S w of (j, w1) \<Rightarrow> (j, x, w1)),
      sleep = (\<lambda>d (x, w). (x, sleep S d w))\<rparr>"

definition responseData :: "('w, 'j) sys \<Rightarrow> response \<Rightarrow> 'j" where
  "responseData S r =
     (case body_text r of
        None \<Rightarrow> emptyObject S
      | Some t \<Rightarrow> if t = [] then emptyObject S else nullish (parseJson S t) (emptyObject S))"

text \<open>The operation \<^verbatim>\<open>request\<close> hands to the retry loop: one pass through the breaker.\<close>

definition attemptOnce :: "('w, 'j) sys \<Rightarrow> string \<Rightarrow> request_init \<Rightarrow> (xui \<times> 'w, 'j) op" where
  "attemptOnce S path ini = (\<lambda>(x, w).
     case call (\<lambda>xw. clock S (snd xw)) api_breaker (makeHttpRequest S path ini)
            (circuitBreaker x, x, w) of
       (Inl e, b, x1, w1) \<Rightarrow> (Inl e, x1\<lparr>circuitBreaker := b\<rparr>, w1)
     | (Inr r, b, x1, w1) \<Rightarrow>
         let d = responseData S r in
         if \<not> ok r then
           (Inl (handleHttpError r (messageOf S d) (fieldOf S d)), x1\<lparr>circuitBreaker := b\<rparr>, w1)
         else (Inr d, x1\<lparr>circuitBreaker := b\<rparr>, w1))"

definition request :: "('w, 'j) sys \<Rightarrow> string \<Rightarrow> request_init \<Rightarrow> (xui \<times> 'w, 'j) op" where
  "request S path ini = (\<lambda>(x, w).
     resilientApiCall (client_timers S) (attemptOnce S path ini)
       \<lparr>maxRetries = Some (retryAttempts x), backoffMs = Some (retryDelay x),
        retryableErrors = None\<rparr> (x, w))"

section \<open>types.ts: clients, inbounds and requests\<close>

text \<open>
  A client object: the members of \<^verbatim>\<open>BaseClient\<close>, then those of the four protocol variants,
  each present or not. A client read from the panel may lack its subscription id.
\<close>

record client =
  client_id :: string
  email :: string
  enable :: bool
  limitIp :: int
  totalGB :: int
  expiryTime :: int
  subId :: "string option"
  reset :: int
  alterId :: "int option"
  security :: "string option"
  flow :: "string option"
  password :: "string option"
  cipher_method :: "string option"

record inbound_settings =
  clients :: "client list option"
  decryption :: "string option"
  fallbacks :: "string list option"

text \<open>The panel sends the settings of an inbound as an object or as serialized text.\<close>

datatype settings_blob = SettingsText string | SettingsObject inbound_settings

record stream_settings =
  network :: "string option"
  stream_security :: "string option"

text \<open>An inbound, with the members the client manager reads.\<close>

record inbound =
  inbound_id :: int
  remark :: string
  protocol :: string
  settings :: "settings_blob option"
  streamSettings :: "stream_settings option"

datatype payload = InboundList "inbound list" | InboundObj inbound

record api_response =
  success :: bool
  api_message :: "string option"
  obj :: "payload option"

record subscription_member =
  member_client :: client
  inboundId :: int
  inboundRemark :: string
  inboundProtocol :: string

record subscription_info =
  sub_subId :: string
  sub_clients :: "subscription_member list"

datatype traffic_unit = MB | GB | TB

record traffic_config =
  traffic_size :: int
  traffic_unit :: traffic_unit
  unlimited :: "bool option"

datatype 'a or_unlimited = Value 'a | Unlimited

record vmess_options =
  vmess_alterId :: "int option"
  vmess_security :: "string option"

record vless_options =
  vless_flow :: "string option"

record trojan_options =
  trojan_password :: "string option"

record shadowsocks_options =
  ss_method :: "string option"
  ss_password :: "string option"

record mass_client_request =
  req_subId :: "string option"
  req_enable :: "bool option"
  req_limitIp :: "int or_unlimited option"
  req_traffic :: "traffic_config or_unlimited option"
  req_expiryDays :: "int or_unlimited option"
  req_reset :: "int option"
  vmess :: "vmess_options option"
  vless :: "vless_options option"
  trojan :: "trojan_options option"
  shadowsocks :: "shadowsocks_options option"

section \<open>utils.ts: conversions and generators\<close>

definition convertTrafficToBytes :: "traffic_config or_unlimited \<Rightarrow> int" where
  "convertTrafficToBytes traffic =
     (case traffic of
        Unlimited \<Rightarrow> 0
      | Value t \<Rightarrow>
          if unlimited t = Some True then 0
          else traffic_size t *
            (case traffic_unit t of
               MB \<Rightarrow> 1024 * 1024
             | GB \<Rightarrow> 1024 * 1024 * 1024
             | TB \<Rightarrow> 1024 * 1024 * 1024 * 1024))"

definition convertExpiryDays :: "int \<Rightarrow> int or_unlimited \<Rightarrow> int" where
  "convertExpiryDays t days =
     (case days of
        Unlimited \<Rightarrow> 0
      | Value d \<Rightarrow> if d \<le> 0 then 0 else t + d * 24 * 60 * 60 * 1000)"

definition convertIpLimit :: "int or_unlimited \<Rightarrow> int" where
  "convertIpLimit limit = (case limit of Unlimited \<Rightarrow> 0 | Value n \<Rightarrow> max 0 n)"

definition validateInboundId :: "int \<Rightarrow> bool" where
  "validateInboundId i \<longleftrightarrow> i > 0"

definition charAt :: "string \<Rightarrow> nat \<Rightarrow> string" where
  "charAt s k = (if k < length s then [s ! k] else [])"

section \<open>client-manager.ts\<close>

text \<open>
  The body of the \<^verbatim>\<open>/addClient\<close> call, \<^verbatim>\<open>{id, settings}\<close>, before serialization: \<open>body_base\<close>
  is the settings value that is spread and \<open>body_clients\<close> the client array that replaces its
  \<^verbatim>\<open>clients\<close> member.
\<close>

record add_client_body =
  body_id :: int
  body_base :: settings_blob
  body_clients :: "client list"

text \<open>
  What the client manager runs on, over a state \<open>'s\<close>: the \<^verbatim>\<open>get\<close> and \<^verbatim>\<open>post\<close> of the
  panel client, \<^verbatim>\<open>crypto.randomUUID\<close>, \<^verbatim>\<open>Math.floor(Math.random() * n)\<close>, the clock,
  \<^verbatim>\<open>JSON.stringify\<close> of a context, \<^verbatim>\<open>JSON.parse\<close> of a settings text,
  \<^verbatim>\<open>console.warn\<close> and \<^verbatim>\<open>encodeURIComponent\<close>.
\<close>

record 's env =
  get :: "string \<Rightarrow> ('s, api_response) op"
  post :: "string \<Rightarrow> add_client_body option \<Rightarrow> ('s, api_response) op"
  generateUUID :: "'s \<Rightarrow> string \<times> 's"
  randomBelow :: "nat \<Rightarrow> 's \<Rightarrow> nat \<times> 's"
  dateNow :: "'s \<Rightarrow> int"
  render :: "err_context \<Rightarrow> string"
  parseSettings :: "string \<Rightarrow> error + inbound_settings"
  warn :: "string \<Rightarrow> 's \<Rightarrow> 's"
  encodeURIComponent :: "string \<Rightarrow> string"

definition getPath :: "string \<Rightarrow> string" where
  "getPath subPath = ''/panel/api/inbounds'' @ subPath"

text \<open>\<^verbatim>\<open>generateRandomEmail\<close>: eight characters drawn from letters and digits.\<close>

primrec emailLoop :: "'s env \<Rightarrow> nat \<Rightarrow> string \<Rightarrow> 's \<Rightarrow> string \<times> 's" where
  "emailLoop E 0 result s = (result, s)"
| "emailLoop E (Suc n) result s =
     (case randomBelow E 36 s of
        (k, s1) \<Rightarrow> emailLoop E n (result @ charAt ''abcdefghijklmnopqrstuvwxyz0123456789'' k) s1)"

definition generateRandomEmail :: "'s env \<Rightarrow> 's \<Rightarrow> string \<times> 's" where
  "generateRandomEmail E s = emailLoop E 8 [] s"

text \<open>
  The validators throw or return nothing: \<open>Some\<close> is the error thrown. The unit of a traffic
  configuration is one of the three units of its type, so the test of the unit has no branch.
\<close>

definition validateClientData :: "client \<Rightarrow> error option" where
  "validateClientData c =
     (if trim (client_id c) = [] then Some (ValidationError ''Client ID is required'' (Some ''id''))
      else if limitIp c < 0 then
        Some (ValidationError ''IP limit must be a non-negative integer'' (Some ''limitIp''))
      else if totalGB c < 0 then
        Some (ValidationError ''Total GB must be a non-negative integer'' (Some ''totalGB''))
      else if expiryTime c < 0 then
        Some (ValidationError ''Expiry time must be a non-negative integer (timestamp)''
                (Some ''expiryTime''))
      else None)"

definition validateMassClientRequest :: "mass_client_request \<Rightarrow> error option" where
  "validateMassClientRequest r =
     (if (case req_limitIp r of Some (Value n) \<Rightarrow> n < 0 | _ \<Rightarrow> False) then
        Some (ValidationError (''IP limit must be a non-negative integer or '' @ quoted ''unlimited'')
                (Some ''limitIp''))
      else if (case req_traffic r of Some (Value t) \<Rightarrow> traffic_size t \<le> 0 | _ \<Rightarrow> False) then
        Some (ValidationError ''Traffic size must be positive'' (Some ''traffic.size''))
      else if (case req_expiryDays r of Some (Value d) \<Rightarrow> d < 0 | _ \<Rightarrow> False) then
        Some (ValidationError (''Expiry days must be a non-negative integer or '' @ quoted ''unlimited'')
                (Some ''expiryDays''))
      else None)"

definition determineVlessFlow :: "inbound \<Rightarrow> mass_client_request \<Rightarrow> string" where
  "determineVlessFlow ib r =
     (case (case vless r of None \<Rightarrow> None | Some v \<Rightarrow> vless_flow v) of
        Some f \<Rightarrow> f
      | None \<Rightarrow>
          (case streamSettings ib of
             None \<Rightarrow> []
           | Some ss \<Rightarrow>
               let sec = map_option toLowerCase (stream_security ss);
                   net = map_option toLowerCase (network ss)
               in
                 if sec = Some ''xtls'' then ''xtls-rprx-vision''
                 else if sec = Some ''tls'' \<or> sec = Some ''reality'' then []
                 else if net = Some ''tcp'' \<and> (\<not> truthy sec \<or> sec = Some ''none'') then []
                 else if net = Some ''ws'' \<or> net = Some ''grpc'' \<or> net = Some ''h2''
                         \<or> net = Some ''httpupgrade'' then []
                 else []))"

text \<open>
  \<^verbatim>\<open>createClientForProtocol\<close>. The conditionals test truthiness: an absent member and the
  number 0 take the default branch, the string \<^verbatim>\<open>'unlimited'\<close> and any other number do not.
\<close>

definition numTruthy :: "int or_unlimited option \<Rightarrow> bool" where
  "numTruthy v \<longleftrightarrow> (case v of None \<Rightarrow> False | Some (Value n) \<Rightarrow> n \<noteq> 0 | Some Unlimited \<Rightarrow> True)"

definition createClientForProtocol ::
  "'s env \<Rightarrow> inbound \<Rightarrow> mass_client_request \<Rightarrow> 's \<Rightarrow> client \<times> 's" where
  "createClientForProtocol E ib r s =
     (case generateRandomEmail E s of
        (em, s1) \<Rightarrow>
          let lim = (if numTruthy (req_limitIp r) then convertIpLimit (the (req_limitIp r)) else 2);
              tot = (case req_traffic r of None \<Rightarrow> 0 | Some t \<Rightarrow> convertTrafficToBytes t);
              ex = (if numTruthy (req_expiryDays r)
                    then convertExpiryDays (dateNow E s1) (the (req_expiryDays r)) else 0)
          in
          (case generateUUID E s1 of
             (uuid, s2) \<Rightarrow>
               let baseClient =
                     \<lparr>client_id = uuid, email = em, enable = nullish (req_enable r) True,
                      limitIp = lim, totalGB = tot, expiryTime = ex, subId = req_subId r,
                      reset = nullish (req_reset r) 0, alterId = None, security = None,
                      flow = None, password = None, cipher_method = None\<rparr>;
                   proto = toLowerCase (protocol ib)
               in
               if proto = ''vmess'' then
                 (baseClient
                    \<lparr>alterId := Some (nullish (case vmess r of None \<Rightarrow> None
                                                 | Some v \<Rightarrow> vmess_alterId v) 0),
                     security := Some (nullish (case vmess r of None \<Rightarrow> None
                                                 | Some v \<Rightarrow> vmess_security v) ''auto'')\<rparr>, s2)
               else if proto = ''vless'' then
                 (baseClient\<lparr>flow := Some (determineVlessFlow ib r)\<rparr>, s2)
               else if proto = ''trojan'' then
                 (case (case trojan r of None \<Rightarrow> None | Some v \<Rightarrow> trojan_password v) of
                    Some p \<Rightarrow> (baseClient\<lparr>password := Some p\<rparr>, s2)
                  | None \<Rightarrow>
                      (case generateUUID E s2 of
                         (p, s3) \<Rightarrow> (baseClient\<lparr>password := Some p\<rparr>, s3)))
               else if proto = ''shadowsocks'' then
                 (let m = nullish (case shadowsocks r of None \<Rightarrow> None | Some v \<Rightarrow> ss_method v)
                            ''aes-256-gcm''
                  in
                  case (case shadowsocks r of None \<Rightarrow> None | Some v \<Rightarrow> ss_password v) of
                    Some p \<Rightarrow> (baseClient\<lparr>cipher_method := Some m, password := Some p\<rparr>, s2)
                  | None \<Rightarrow>
                      (case generateUUID E s2 of
                         (p, s3) \<Rightarrow> (baseClient\<lparr>cipher_method := Some m, password := Some p\<rparr>, s3)))
               else
                 (baseClient\<lparr>flow := Some (determineVlessFlow ib r)\<rparr>, s2)))"

text \<open>
  The warning of \<^verbatim>\<open>getAllSubscriptions\<close> interpolates an error, which prints as its class
  name and message.
\<close>

definition class_name :: "err_class \<Rightarrow> string" where
  "class_name k =
     (case k of
        ClsError \<Rightarrow> ''Error'' | ClsSyntax \<Rightarrow> ''SyntaxError'' | ClsType \<Rightarrow> ''TypeError''
      | ClsUndefined \<Rightarrow> ''undefined'' | ClsApi \<Rightarrow> ''ApiError''
      | ClsAuthentication \<Rightarrow> ''AuthenticationError'' | ClsValidation \<Rightarrow> ''ValidationError''
      | ClsNetwork \<Rightarrow> ''NetworkError'')"

definition error_toString :: "error \<Rightarrow> string" where
  "error_toString e =
     (if cls e = ClsUndefined \<or> message e = [] then class_name (cls e)
      else class_name (cls e) @ '': '' @ message e)"

text \<open>\<^verbatim>\<open>error instanceof Error ? error.message : 'Unknown error'\<close>\<close>

definition errorMessage :: "error \<Rightarrow> string" where
  "errorMessage e = (if cls e = ClsUndefined then ''Unknown error'' else message e)"

definition JsTypeError :: "string \<Rightarrow> error" where
  "JsTypeError m = \<lparr>cls = ClsType, message = m, statusCode = None, field = None\<rparr>"

text \<open>
  \<^verbatim>\<open>addClient\<close>. \<open>currentSettings\<close> is \<^verbatim>\<open>inbound.settings || { clients: [] }\<close>, where an array
  received in place of the inbound has no settings, and \<open>currentClients\<close> is
  \<^verbatim>\<open>currentSettings.clients || []\<close>, where a settings text has no such member.
\<close>

definition noSettings :: settings_blob where
  "noSettings = SettingsObject \<lparr>clients = Some [], decryption = None, fallbacks = None\<rparr>"

definition currentSettings :: "payload \<Rightarrow> settings_blob" where
  "currentSettings p =
     (case p of
        InboundList ibs \<Rightarrow> noSettings
      | InboundObj ib \<Rightarrow>
          (case settings ib of
             None \<Rightarrow> noSettings
           | Some (SettingsText t) \<Rightarrow> if t = [] then noSettings else SettingsText t
           | Some (SettingsObject st) \<Rightarrow> SettingsObject st))"

definition currentClients :: "settings_blob \<Rightarrow> client list" where
  "currentClients b =
     (case b of SettingsText t \<Rightarrow> [] | SettingsObject st \<Rightarrow> nullish (clients st) [])"

definition addClientError :: "'s env \<Rightarrow> int \<Rightarrow> client \<Rightarrow> error \<Rightarrow> error" where
  "addClientError E inbId c e =
     createErrorWithContext (render E) e
       [(''operation'', CStr ''addClient''), (''inboundId'', CNum inbId),
        (''clientEmail'', CStr (email c))]
       ''Failed to add client''"

definition addClient :: "'s env \<Rightarrow> int \<Rightarrow> client \<Rightarrow> ('s, bool) op" where
  "addClient E inbId c s =
     (if \<not> validateInboundId inbId then
        (Inl (ValidationError ''Invalid inbound ID'' (Some ''inboundId'')), s)
      else
        (case validateClientData c of
           Some e \<Rightarrow> (Inl e, s)
         | None \<Rightarrow>
             (case get E (getPath (''/get/'' @ show_int inbId)) s of
                (Inl e, s1) \<Rightarrow> (Inl (addClientError E inbId c e), s1)
              | (Inr resp, s1) \<Rightarrow>
                  if \<not> success resp \<or> obj resp = None then
                    (Inl (addClientError E inbId c (JsError ''Inbound not found'')), s1)
                  else
                    let cur = currentSettings (the (obj resp));
                        updateData = \<lparr>body_id = inbId, body_base = cur,
                                      body_clients = currentClients cur @ [c]\<rparr>
                    in
                    (case post E (getPath ''/addClient'') (Some updateData) s1 of
                       (Inl e, s2) \<Rightarrow> (Inl (addClientError E inbId c e), s2)
                     | (Inr r, s2) \<Rightarrow>
                         if \<not> success r then
                           (Inl (addClientError E inbId c
                                   (JsError (or_else (api_message r) ''Failed to add client''))), s2)
                         else (Inr True, s2)))))"

definition deleteClientError :: "'s env \<Rightarrow> int \<Rightarrow> string \<Rightarrow> error \<Rightarrow> error" where
  "deleteClientError E inbId clientId e =
     createErrorWithContext (render E) e
       [(''operation'', CStr ''deleteClient''), (''inboundId'', CNum inbId),
        (''clientId'', CStr clientId)]
       ''Failed to delete client''"

text \<open>\<^verbatim>\<open>deleteClient\<close>; the key may be \<^verbatim>\<open>undefined\<close> when it was read from a missing member.\<close>

definition deleteClient :: "'s env \<Rightarrow> int \<Rightarrow> string option \<Rightarrow> ('s, bool) op" where
  "deleteClient E inbId clientId s =
     (if \<not> validateInboundId inbId then
        (Inl (ValidationError ''Invalid inbound ID'' (Some ''inboundId'')), s)
      else
        (case clientId of
           None \<Rightarrow> (Inl (ValidationError ''Client ID is required'' (Some ''clientId'')), s)
         | Some k \<Rightarrow>
             if trim k = [] then
               (Inl (ValidationError ''Client ID is required'' (Some ''clientId'')), s)
             else
               (case post E (getPath (''/'' @ show_int inbId @ ''/delClient/''
                                        @ encodeURIComponent E k)) None s of
                  (Inl e, s1) \<Rightarrow> (Inl (deleteClientError E inbId k e), s1)
                | (Inr r, s1) \<Rightarrow>
                    if \<not> success r then
                      (Inl (deleteClientError E inbId k
                              (JsError (or_else (api_message r) ''Failed to delete client''))), s1)
                    else (Inr True, s1))))"

text \<open>
  \<^verbatim>\<open>getAllSubscriptions\<close>. The \<^verbatim>\<open>Map\<close> from subscription id to subscription is an association
  list in insertion order; \<open>pushMember\<close> is the body of the inner loop, \<open>scanInbounds\<close> the outer
  loop with its \<^verbatim>\<open>continue\<close> on a settings text that does not parse.
\<close>

type_synonym subscriptionsMap = "(string \<times> subscription_info) list"

definition pushMember :: "inbound \<Rightarrow> client \<Rightarrow> subscriptionsMap \<Rightarrow> subscriptionsMap" where
  "pushMember ib c m =
     (if truthy (subId c) then
        let sid = the (subId c);
            subscription = (case map_of m sid of
                              None \<Rightarrow> \<lparr>sub_subId = sid, sub_clients = []\<rparr>
                            | Some g \<Rightarrow> g)
        in AList.update sid
             (subscription\<lparr>sub_clients := sub_clients subscription @
                [\<lparr>member_client = c, inboundId = inbound_id ib, inboundRemark = remark ib,
                  inboundProtocol = protocol ib\<rparr>]\<rparr>) m
      else m)"

definition scanClients :: "inbound \<Rightarrow> client list option \<Rightarrow> subscriptionsMap \<Rightarrow> subscriptionsMap" where
  "scanClients ib cs m = (case cs of None \<Rightarrow> m | Some l \<Rightarrow> fold (pushMember ib) l m)"

definition parseWarning :: "inbound \<Rightarrow> error \<Rightarrow> string" where
  "parseWarning ib e =
     ''Failed to parse settings for inbound '' @ show_int (inbound_id ib) @ '': ''
       @ error_toString e"

fun scanInbounds :: "'s env \<Rightarrow> inbound list \<Rightarrow> subscriptionsMap \<Rightarrow> 's \<Rightarrow> subscriptionsMap \<times> 's" where
  "scanInbounds E [] m s = (m, s)"
| "scanInbounds E (ib # rest) m s =
     (case settings ib of
        None \<Rightarrow> scanInbounds E rest m s
      | Some (SettingsObject st) \<Rightarrow> scanInbounds E rest (scanClients ib (clients st) m) s
      | Some (SettingsText t) \<Rightarrow>
          (case parseSettings E t of
             Inl e \<Rightarrow> scanInbounds E rest m (warn E (parseWarning ib e) s)
           | Inr st \<Rightarrow> scanInbounds E rest (scanClients ib (clients st) m) s))"

definition getAllSubscriptions :: "'s env \<Rightarrow> ('s, subscription_info list) op" where
  "getAllSubscriptions E s =
     (let failed = (\<lambda>e. createErrorWithContext (render E) e
                            [(''operation'', CStr ''getAllSubscriptions'')]
                            ''Failed to get all subscriptions'')
      in
      case get E (getPath ''/list'') s of
        (Inl e, s1) \<Rightarrow> (Inl (failed e), s1)
      | (Inr resp, s1) \<Rightarrow>
          if \<not> success resp \<or> obj resp = None then
            (Inl (failed (JsError ''Failed to get inbounds'')), s1)
          else
            (case the (obj resp) of
               InboundObj ib \<Rightarrow> (Inl (failed (JsTypeError ''inbounds is not iterable'')), s1)
             | InboundList inbounds \<Rightarrow>
                 (case scanInbounds E inbounds [] s1 of (m, s2) \<Rightarrow> (Inr (map snd m), s2))))"

definition getSubscriptionById :: "'s env \<Rightarrow> string \<Rightarrow> ('s, subscription_info option) op" where
  "getSubscriptionById E sid s =
     (if trim sid = [] then (Inl (ValidationError ''SubId is required'' (Some ''subId'')), s)
      else
        (case getAllSubscriptions E s of
           (Inl e, s1) \<Rightarrow>
             (Inl (createErrorWithContext (render E) e
                     [(''operation'', CStr ''getSubscriptionById''), (''subId'', CStr sid)]
                     (''Failed to get subscription with subId '' @ sid)), s1)
         | (Inr allSubscriptions, s1) \<Rightarrow>
             (Inr (find (\<lambda>sub. sub_subId sub = sid) allSubscriptions), s1)))"

text \<open>The report of a mass operation: the two counts and one result for each target.\<close>

record 'r summary =
  success_total :: int
  failed_total :: int
  results :: "'r list"

record create_result =
  created_inboundId :: int
  created_inboundRemark :: string
  created_protocol :: string
  created_success :: bool
  created_error :: "string option"

text \<open>\<^verbatim>\<open>createClientOnAllInbounds\<close>: the loop over the inbounds, then the whole method.\<close>

fun createLoop ::
  "'s env \<Rightarrow> mass_client_request \<Rightarrow> inbound list \<Rightarrow> create_result summary \<Rightarrow> 's
     \<Rightarrow> create_result summary \<times> 's"
where
  "createLoop E r [] acc s = (acc, s)"
| "createLoop E r (ib # rest) acc s =
     (case createClientForProtocol E ib r s of
        (c, s1) \<Rightarrow>
          (case addClient E (inbound_id ib) c s1 of
             (Inr added, s2) \<Rightarrow>
               createLoop E r rest
                 (acc\<lparr>results := results acc @
                        [\<lparr>created_inboundId = inbound_id ib, created_inboundRemark = remark ib,
                          created_protocol = protocol ib, created_success = True,
                          created_error = None\<rparr>],
                      success_total := success_total acc + 1\<rparr>) s2
           | (Inl e, s2) \<Rightarrow>
               createLoop E r rest
                 (acc\<lparr>results := results acc @
                        [\<lparr>created_inboundId = inbound_id ib, created_inboundRemark = remark ib,
                          created_protocol = protocol ib, created_success = False,
                          created_error = Some (errorMessage e)\<rparr>],
                      failed_total := failed_total acc + 1\<rparr>) s2))"

definition withSubId :: "'s env \<Rightarrow> mass_client_request \<Rightarrow> 's \<Rightarrow> mass_client_request \<times> 's" where
  "withSubId E r s =
     (if \<not> truthy (req_subId r) then
        (case generateUUID E s of (u, s0) \<Rightarrow> (r\<lparr>req_subId := Some u\<rparr>, s0))
      else (r, s))"

definition createClientOnAllInbounds ::
  "'s env \<Rightarrow> mass_client_request \<Rightarrow> ('s, create_result summary) op" where
  "createClientOnAllInbounds E req s =
     (case validateMassClientRequest req of
        Some e \<Rightarrow> (Inl e, s)
      | None \<Rightarrow>
          (case withSubId E req s of
             (r, s0) \<Rightarrow>
               let failed = (\<lambda>e. createErrorWithContext (render E) e
                                     [(''operation'', CStr ''createClientOnAllInbounds''),
                                      (''subId'', CStr (or_else (req_subId r) ''generated''))]
                                     ''Failed to create client on all inbounds'')
               in
               (case get E (getPath ''/list'') s0 of
                  (Inl e, s1) \<Rightarrow> (Inl (failed e), s1)
                | (Inr resp, s1) \<Rightarrow>
                    if \<not> success resp \<or> obj resp = None then
                      (Inl (failed (JsError ''Failed to get inbounds'')), s1)
                    else
                      (case the (obj resp) of
                         InboundObj ib \<Rightarrow>
                           (Inl (failed (JsTypeError ''inbounds is not iterable'')), s1)
                       | InboundList inbounds \<Rightarrow>
                           (case createLoop E r inbounds
                                   \<lparr>success_total = 0, failed_total = 0, results = []\<rparr> s1 of
                              (report, s2) \<Rightarrow> (Inr report, s2))))))"

record delete_result =
  deleted_inboundId :: int
  deleted_clientEmail :: string
  deleted_success :: bool
  deleted_error :: "string option"

definition getClientIdForProtocol :: "client \<Rightarrow> string \<Rightarrow> string option" where
  "getClientIdForProtocol c proto =
     (let p = toLowerCase proto in
      if p = ''vmess'' \<or> p = ''vless'' then Some (client_id c)
      else if p = ''trojan'' then password c
      else if p = ''shadowsocks'' then Some (email c)
      else Some (client_id c))"

fun deleteLoop ::
  "'s env \<Rightarrow> subscription_member list \<Rightarrow> delete_result summary \<Rightarrow> 's
     \<Rightarrow> delete_result summary \<times> 's"
where
  "deleteLoop E [] acc s = (acc, s)"
| "deleteLoop E (clientInfo # rest) acc s =
     (case deleteClient E (inboundId clientInfo)
             (getClientIdForProtocol (member_client clientInfo) (inboundProtocol clientInfo)) s of
        (Inr deleted, s1) \<Rightarrow>
          deleteLoop E rest
            (acc\<lparr>results := results acc @
                   [\<lparr>deleted_inboundId = inboundId clientInfo,
                     deleted_clientEmail = email (member_client clientInfo),
                     deleted_success = True, deleted_error = None\<rparr>],
                 success_total := success_total acc + 1\<rparr>) s1
      | (Inl e, s1) \<Rightarrow>
          deleteLoop E rest
            (acc\<lparr>results := results acc @
                   [\<lparr>deleted_inboundId = inboundId clientInfo,
                     deleted_clientEmail = email (member_client clientInfo),
                     deleted_success = False, deleted_error = Some (errorMessage e)\<rparr>],
                 failed_total := failed_total acc + 1\<rparr>) s1)"

definition deleteClientsBySubId :: "'s env \<Rightarrow> string \<Rightarrow> ('s, delete_result summary) op" where
  "deleteClientsBySubId E sid s =
     (if trim sid = [] then (Inl (ValidationError ''SubId is required'' (Some ''subId'')), s)
      else
        (case getSubscriptionById E sid s of
           (Inl e, s1) \<Rightarrow>
             (Inl (createErrorWithContext (render E) e
                     [(''operation'', CStr ''deleteClientsBySubId''), (''subId'', CStr sid)]
                     (''Failed to delete clients with subId '' @ sid)), s1)
         | (Inr None, s1) \<Rightarrow> (Inr \<lparr>success_total = 0, failed_total = 0, results = []\<rparr>, s1)
         | (Inr (Some subscription), s1) \<Rightarrow>
             (case deleteLoop E (sub_clients subscription)
                     \<lparr>success_total = 0, failed_total = 0, results = []\<rparr> s1 of
                (report, s2) \<Rightarrow> (Inr report, s2))))"

text \<open>
  The grouping of \<^verbatim>\<open>listSubscriptions\<close> as the specification words it. The tagged members of
  an inbound list are, inbound after inbound and client after client, the clients that carry
  a non-empty subscription id, each with its inbound; an inbound without settings, or with a
  settings text that does not parse, has none. There is one group for each subscription id,
  in the order of first appearance, holding every member tagged with it.
\<close>

definition readClients :: "'s env \<Rightarrow> inbound \<Rightarrow> client list" where
  "readClients E ib =
     (case settings ib of
        None \<Rightarrow> []
      | Some (SettingsObject st) \<Rightarrow> nullish (clients st) []
      | Some (SettingsText t) \<Rightarrow>
          (case parseSettings E t of Inl e \<Rightarrow> [] | Inr st \<Rightarrow> nullish (clients st) []))"

definition memberOf :: "inbound \<Rightarrow> client \<Rightarrow> subscription_member" where
  "memberOf ib c =
     \<lparr>member_client = c, inboundId = inbound_id ib, inboundRemark = remark ib,
      inboundProtocol = protocol ib\<rparr>"

definition taggedMembers :: "'s env \<Rightarrow> inbound list \<Rightarrow> subscription_member list" where
  "taggedMembers E ibs =
     concat (map (\<lambda>ib. map (memberOf ib) (filter (\<lambda>c. truthy (subId c)) (readClients E ib))) ibs)"

definition tagOf :: "subscription_member \<Rightarrow> string" where
  "tagOf mb = the (subId (member_client mb))"

definition firstSeen :: "'a list \<Rightarrow> 'a list" where
  "firstSeen xs = rev (remdups (rev xs))"

definition groupOf :: "subscription_member list \<Rightarrow> string \<Rightarrow> subscription_info" where
  "groupOf ms sid = \<lparr>sub_subId = sid, sub_clients = filter (\<lambda>mb. tagOf mb = sid) ms\<rparr>"

definition grouped :: "subscription_member list \<Rightarrow> subscription_info list" where
  "grouped ms = map (groupOf ms) (firstSeen (map tagOf ms))"

text \<open>The warnings of a scan: one for each inbound whose settings text does not parse.\<close>

definition parseWarnings :: "'s env \<Rightarrow> inbound list \<Rightarrow> string list" where
  "parseWarnings E ibs =
     concat (map (\<lambda>ib. case settings ib of
                          Some (SettingsText t) \<Rightarrow>
                            (case parseSettings E t of Inl e \<Rightarrow> [parseWarning ib e] | Inr st \<Rightarrow> [])
                        | _ \<Rightarrow> []) ibs)"

definition unreadable :: "'s env \<Rightarrow> inbound \<Rightarrow> bool" where
  "unreadable E ib \<longleftrightarrow>
     (case settings ib of
        Some (SettingsText t) \<Rightarrow> isl (parseSettings E t)
      | _ \<Rightarrow> False)"

section \<open>Runs and fixtures\<close>

text \<open>
  A run of calls on one breaker. Each step is what happens to the state before the call (time
  passing) and the operation the call wraps; the run collects the outcome of every call.
\<close>

fun calls ::
  "('s \<Rightarrow> int) \<Rightarrow> breaker_cfg \<Rightarrow> (('s \<Rightarrow> 's) \<times> ('s, 'a) op) list \<Rightarrow> breaker \<times> 's
     \<Rightarrow> (error + 'a) list \<times> breaker \<times> 's"
where
  "calls now c [] bs = ([], bs)"
| "calls now c (step # rest) bs =
     (case call now c (snd step) (fst bs, fst step (snd bs)) of
        (r, bs1) \<Rightarrow> (case calls now c rest bs1 of (rs, bs2) \<Rightarrow> (r # rs, bs2)))"

text \<open>A step never turns the clock back.\<close>

definition clock_mono :: "('s \<Rightarrow> int) \<Rightarrow> ('s \<Rightarrow> 's) \<times> ('s, 'a) op \<Rightarrow> bool" where
  "clock_mono now step \<longleftrightarrow>
     (\<forall>s. now s \<le> now (fst step s)) \<and> (\<forall>s. now s \<le> now (snd (snd step s)))"

text \<open>
  After \<open>k\<close> failed calls in a row the breaker is open, or its timestamp has passed, or it has
  counted all \<open>k\<close> of them.
\<close>

definition tripped :: "('s \<Rightarrow> int) \<Rightarrow> breaker_cfg \<Rightarrow> nat \<Rightarrow> breaker \<Rightarrow> 's \<Rightarrow> bool" where
  "tripped now c k b s \<longleftrightarrow>
     threshold c \<le> failures b \<or> nextAttempt b \<le> now s \<or> int k \<le> failures b"

text \<open>
  Fixtures over the simplest state, the time in milliseconds: an operation that takes 10 ms and
  fails with a network error, one that succeeds, and a second of idling.
\<close>

definition wall_clock :: "int \<Rightarrow> int" where
  "wall_clock t = t"

definition down :: "(int, unit) op" where
  "down t = (Inl (NetworkError ''connect ECONNREFUSED'' None), t + 10)"

definition up :: "(int, unit) op" where
  "up t = (Inr (), t + 10)"

definition pause_1s :: "int \<Rightarrow> int" where
  "pause_1s t = t + 1000"

text \<open>
  Fixtures for the retry loop over a counter of invocations: timers that do nothing, an
  operation that fails with a 503 each time and one that is refused with a 403.
\<close>

definition no_timers :: "nat timers" where
  "no_timers = \<lparr>jitter = (\<lambda>n. (0, n)), sleep = (\<lambda>d n. n)\<rparr>"

definition unavailable :: "(nat, unit) op" where
  "unavailable n = (Inl (NetworkError ''Server error: Service Unavailable'' (Some 503)), Suc n)"

definition forbidden :: "(nat, unit) op" where
  "forbidden n = (Inl (NetworkError ''HTTP 403: Forbidden'' (Some 403)), Suc n)"

definition two_retries :: retry_options where
  "two_retries = \<lparr>maxRetries = Some 2, backoffMs = None, retryableErrors = None\<rparr>"

text \<open>Fixtures for the client factory.\<close>

definition xtls_inbound :: inbound where
  "xtls_inbound =
     \<lparr>inbound_id = 1, remark = ''edge'', protocol = ''vless'', settings = None,
      streamSettings = Some \<lparr>network = Some ''tcp'', stream_security = Some ''XTLS''\<rparr>\<rparr>"

definition plain_request :: mass_client_request where
  "plain_request =
     \<lparr>req_subId = None, req_enable = None, req_limitIp = None, req_traffic = None,
      req_expiryDays = None, req_reset = None, vmess = None, vless = None, trojan = None,
      shadowsocks = None\<rparr>"

text \<open>
  An observer of the traffic: \<open>sent\<close> reads from a world the requests handed to
  \<^verbatim>\<open>fetch\<close> so far, oldest first.
\<close>

definition records :: "('w, 'j) sys \<Rightarrow> ('w \<Rightarrow> http_request list) \<Rightarrow> bool" where
  "records S sent \<longleftrightarrow> (\<forall>rq w. sent (snd (fetch S rq w)) = sent w @ [rq])"

definition loginRequest :: "('w, 'j) sys \<Rightarrow> xui \<Rightarrow> http_request" where
  "loginRequest S x = rawRequest x ''/login'' (login_init S x)"

text \<open>The condition under which \<^verbatim>\<open>ensureAuthenticated\<close> logs in.\<close>

definition stale :: "('w, 'j) sys \<Rightarrow> xui \<Rightarrow> 'w \<Rightarrow> bool" where
  "stale S x w \<longleftrightarrow>
     \<not> isAuthenticated x \<or> \<not> truthy (sessionCookie x) \<or> clock S w - lastLoginTime x > 3600000"

text \<open>
  A scripted network for the client: every \<^verbatim>\<open>fetch\<close> takes a millisecond, is written to the
  outbox and answered by the next scripted reply, or rejected once the script has run out.
\<close>

record net =
  net_clock :: int
  outbox :: "http_request list"
  replies :: "fetch_result list"

definition scripted :: "(net, string) sys" where
  "scripted =
     \<lparr>jitter = (\<lambda>w. (0, w)),
      sleep = (\<lambda>d w. w\<lparr>net_clock := net_clock w + d\<rparr>),
      clock = net_clock,
      fetch = (\<lambda>rq w.
        (case replies w of [] \<Rightarrow> Rejected ''offline'' | r # rs \<Rightarrow> r,
         w\<lparr>net_clock := net_clock w + 1, outbox := outbox w @ [rq], replies := tl (replies w)\<rparr>)),
      formEncode = (\<lambda>kvs. concat (map (\<lambda>kv. fst kv @ ''='' @ snd kv @ ''&'') kvs)),
      stringify = (\<lambda>c. ''{..}''),
      parseJson = Some,
      emptyObject = ''{}'',
      messageOf = (\<lambda>j. None),
      fieldOf = (\<lambda>j. None)\<rparr>"

definition session0 :: xui where
  "session0 =
     \<lparr>baseUrl = ''http://panel'', username = ''admin'', userPassword = ''secret'',
      requestTimeout = 30000, retryAttempts = 1, retryDelay = 1000,
      sessionCookie = Some ''session=old'', isAuthenticated = True, lastLoginTime = 0,
      circuitBreaker = new_breaker 0\<rparr>"

definition get_init :: request_init where
  "get_init = \<lparr>init_method = Some ''GET'', init_headers = [], init_body = None\<rparr>"

definition unauthorized :: response where
  "unauthorized =
     \<lparr>status = 401, statusText = ''Unauthorized'', setCookie = [], body_text = Some []\<rparr>"

definition accepted :: response where
  "accepted =
     \<lparr>status = 200, statusText = ''OK'', setCookie = [''session=new; Path=/''],
      body_text = Some ''{}''\<rparr>"

definition net_of :: "fetch_result list \<Rightarrow> net" where
  "net_of rs = \<lparr>net_clock = 1000, outbox = [], replies = rs\<rparr>"

definition net_replay :: net where
  "net_replay = net_of [Responded unauthorized, Responded accepted, Responded unauthorized]"

definition net_refused :: net where
  "net_refused = net_of [Responded unauthorized, Responded unauthorized]"

definition net_down :: net where
  "net_down = net_of [Responded unauthorized, Rejected ''down'']"

definition net_late :: net where
  "net_late = \<lparr>net_clock = 3600001, outbox = [], replies = [Responded accepted, Responded accepted]\<rparr>"

text \<open>
  The subscription map that stands for a list of tagged members: one entry for each
  subscription id, in the order of first appearance.
\<close>

definition rep :: "subscription_member list \<Rightarrow> subscriptionsMap" where
  "rep ms = map (\<lambda>sid. (sid, groupOf ms sid)) (firstSeen (map tagOf ms))"

text \<open>
  An observer of the panel calls: \<open>posted\<close> reads from a state the bodies handed to
  \<^verbatim>\<open>post\<close> so far, oldest first; the other effects leave it alone.
\<close>

definition observes :: "'s env \<Rightarrow> ('s \<Rightarrow> add_client_body list) \<Rightarrow> bool" where
  "observes E posted \<longleftrightarrow>
     (\<forall>p b s. posted (snd (post E p b s)) = posted s @ (case b of None \<Rightarrow> [] | Some x \<Rightarrow> [x]))
     \<and> (\<forall>p s. posted (snd (get E p s)) = posted s)
     \<and> (\<forall>s. posted (snd (generateUUID E s)) = posted s)
     \<and> (\<forall>n s. posted (snd (randomBelow E n s)) = posted s)"

text \<open>What a result says of its target, and the same three members of an inbound.\<close>

definition targetOf :: "inbound \<Rightarrow> int \<times> string \<times> string" where
  "targetOf ib = (inbound_id ib, remark ib, protocol ib)"

definition targetOfResult :: "create_result \<Rightarrow> int \<times> string \<times> string" where
  "targetOfResult x = (created_inboundId x, created_inboundRemark x, created_protocol x)"

text \<open>
  One pass of the loop of \<^verbatim>\<open>createClientOnAllInbounds\<close>, for the inbound \<open>ib\<close> in the state
  \<open>s\<close>: the body of its \<^verbatim>\<open>try\<close> block makes the client with \<^verbatim>\<open>createClientForProtocol\<close> and
  hands it to \<^verbatim>\<open>addClient\<close> in the state the making left. \<open>attemptTarget\<close> is that call of
  \<^verbatim>\<open>addClient\<close>, with its outcome and the state it leaves.
\<close>

definition attemptTarget :: "'s env \<Rightarrow> mass_client_request \<Rightarrow> inbound \<Rightarrow> ('s, bool) op" where
  "attemptTarget E r ib s =
     addClient E (inbound_id ib) (fst (createClientForProtocol E ib r s))
       (snd (createClientForProtocol E ib r s))"

text \<open>
  The passes of a run over a list of inbounds, in the order of the list: each with its
  inbound, the client made for it, the outcome of \<^verbatim>\<open>addClient\<close>, and the states before and
  after; a pass starts in the state the pass before it left.
\<close>

record 's attempt =
  att_target :: inbound
  att_client :: client
  att_outcome :: "error + bool"
  att_before :: 's
  att_after :: 's

fun attempts :: "'s env \<Rightarrow> mass_client_request \<Rightarrow> inbound list \<Rightarrow> 's \<Rightarrow> 's attempt list" where
  "attempts E r [] s = []"
| "attempts E r (ib # rest) s =
     \<lparr>att_target = ib, att_client = fst (createClientForProtocol E ib r s),
      att_outcome = fst (attemptTarget E r ib s), att_before = s,
      att_after = snd (attemptTarget E r ib s)\<rparr>
     # attempts E r rest (snd (attemptTarget E r ib s))"

text \<open>
  The result the loop pushes for a pass: the one of the \<^verbatim>\<open>try\<close> block when \<^verbatim>\<open>addClient\<close>
  returned, the one of the \<^verbatim>\<open>catch\<close> block, with the message of the error, when it threw.
\<close>

definition resultOf :: "'s attempt \<Rightarrow> create_result" where
  "resultOf a =
     (case att_outcome a of
        Inr added \<Rightarrow>
          \<lparr>created_inboundId = inbound_id (att_target a),
           created_inboundRemark = remark (att_target a),
           created_protocol = protocol (att_target a), created_success = True,
           created_error = None\<rparr>
      | Inl e \<Rightarrow>
          \<lparr>created_inboundId = inbound_id (att_target a),
           created_inboundRemark = remark (att_target a),
           created_protocol = protocol (att_target a), created_success = False,
           created_error = Some (errorMessage e)\<rparr>)"

text \<open>
  The bodies a pass added to the record of an observer, and the state a run is in after its
  passes: the one the last pass left, or the initial one when there was no pass.
\<close>

definition postedBy :: "('s \<Rightarrow> add_client_body list) \<Rightarrow> 's attempt \<Rightarrow> add_client_body list" where
  "postedBy posted a = drop (length (posted (att_before a))) (posted (att_after a))"

definition lastState :: "'s \<Rightarrow> 's attempt list \<Rightarrow> 's" where
  "lastState s as = (if as = [] then s else att_after (last as))"

text \<open>
  A panel for the client manager: it lists its inbounds, answers \<^verbatim>\<open>/get\<close> by id, keeps
  what is posted, refuses the clients of the inbounds in \<open>refusing\<close>, draws identifiers from a
  counter, and parses no settings text but \<^verbatim>\<open>{}\<close>.
\<close>

record panel =
  listed :: "inbound list"
  posted_bodies :: "add_client_body list"
  deleted_paths :: "string list"
  drawn :: nat
  warnings :: "string list"
  refusing :: "int list"

definition panel_env :: "panel env" where
  "panel_env =
     \<lparr>get = (\<lambda>path s.
        if path = getPath ''/list'' then
          (Inr \<lparr>success = True, api_message = None, obj = Some (InboundList (listed s))\<rparr>, s)
        else
          (case find (\<lambda>ib. getPath (''/get/'' @ show_int (inbound_id ib)) = path) (listed s) of
             None \<Rightarrow> (Inr \<lparr>success = False, api_message = Some ''not found'', obj = None\<rparr>, s)
           | Some ib \<Rightarrow> (Inr \<lparr>success = True, api_message = None, obj = Some (InboundObj ib)\<rparr>, s))),
      post = (\<lambda>path body s.
        case body of
          None \<Rightarrow> (Inr \<lparr>success = True, api_message = None, obj = None\<rparr>,
                   s\<lparr>deleted_paths := deleted_paths s @ [path]\<rparr>)
        | Some b \<Rightarrow> (Inr \<lparr>success = (body_id b \<notin> set (refusing s)), api_message = None, obj = None\<rparr>,
                     s\<lparr>posted_bodies := posted_bodies s @ [b]\<rparr>)),
      generateUUID = (\<lambda>s. (''uuid-'' @ show_nat (drawn s), s\<lparr>drawn := Suc (drawn s)\<rparr>)),
      randomBelow = (\<lambda>n s. (drawn s mod n, s\<lparr>drawn := Suc (drawn s)\<rparr>)),
      dateNow = (\<lambda>s. 1700000000000),
      render = (\<lambda>c. ''{..}''),
      parseSettings = (\<lambda>t.
        if t = ''{}'' then Inr \<lparr>clients = None, decryption = None, fallbacks = None\<rparr>
        else Inl \<lparr>cls = ClsSyntax, message = ''Unexpected token'', statusCode = None, field = None\<rparr>),
      warn = (\<lambda>m s. s\<lparr>warnings := warnings s @ [m]\<rparr>),
      encodeURIComponent = (\<lambda>k. k)\<rparr>"

definition member_a :: client where
  "member_a =
     \<lparr>client_id = ''11111111-1111-4111-8111-111111111111'', email = ''a1b2c3d4'', enable = True,
      limitIp = 2, totalGB = 0, expiryTime = 0, subId = Some ''family'', reset = 0,
      alterId = None, security = None, flow = Some [], password = None, cipher_method = None\<rparr>"

definition inbound_of :: "int \<Rightarrow> string \<Rightarrow> settings_blob option \<Rightarrow> inbound" where
  "inbound_of i proto st =
     \<lparr>inbound_id = i, remark = ''in-'' @ show_int i, protocol = proto, settings = st,
      streamSettings = None\<rparr>"

definition with_clients :: "client list \<Rightarrow> settings_blob option" where
  "with_clients cs = Some (SettingsObject \<lparr>clients = Some cs, decryption = None, fallbacks = None\<rparr>)"

definition panel0 :: panel where
  "panel0 =
     \<lparr>listed =
        [inbound_of 1 ''vless'' (with_clients [member_a, member_a\<lparr>email := ''nobody'', subId := None\<rparr>]),
         inbound_of 2 ''trojan'' (Some (SettingsText ''{broken'')),
         inbound_of 3 ''vmess'' (with_clients [member_a\<lparr>email := ''zzzz9999'', subId := Some ''work''\<rparr>,
                                              member_a\<lparr>email := ''e5f6g7h8''\<rparr>])],
      posted_bodies = [], deleted_paths = [], drawn = 0, warnings = [], refusing = [2]\<rparr>"

section \<open>Properties of the circuit breaker\<close>

declare retryLoop.simps [simp del]

lemma call_fail_fast:
  "threshold c \<le> failures b \<Longrightarrow> now s < nextAttempt b \<Longrightarrow>
   call now c fn (b, s) = (Inl (ApiError (open_message c) None), b, s)"
  by (simp add: call_def)

lemma call_success_resets:
  "call now c fn (b, s) = (Inr r, b', s') \<Longrightarrow> failures b' = 0"
  by (auto simp: call_def Let_def split: if_splits prod.splits sum.splits)

lemma call_reaches_threshold:
  "failures b < threshold c \<Longrightarrow> threshold c \<le> failures b + 1 \<Longrightarrow> fn s = (Inl e, s1) \<Longrightarrow>
   call now c fn (b, s) =
     (Inl e, \<lparr>failures = failures b + 1, nextAttempt = now s1 + timeout c\<rparr>, s1)"
  by (simp add: call_def Let_def)

lemma tripped_step:
  assumes "tripped now c k b s" and "clock_mono now step"
    and "call now c (snd step) (b, fst step s) = (Inl e, b', s')"
  shows "tripped now c (Suc k) b' s'"
proof -
  have m1: "now s \<le> now (fst step s)" and m2: "\<And>t. now t \<le> now (snd (snd step t))"
    using assms(2) by (simp_all add: clock_mono_def)
  show ?thesis
    using assms(1,3) m1 m2 [of "fst step s"]
    by (auto simp: call_def Let_def tripped_def split: if_splits prod.splits sum.splits)
qed

lemma tripped_calls:
  "tripped now c k b s \<Longrightarrow> \<forall>step \<in> set steps. clock_mono now step \<Longrightarrow>
   calls now c steps (b, s) = (rs, b', s') \<Longrightarrow> \<forall>r \<in> set rs. isl r \<Longrightarrow>
   tripped now c (k + length steps) b' s'"
proof (induction steps arbitrary: k b s rs)
  case Nil
  then show ?case by simp
next
  case (Cons step steps)
  obtain r b1 s1 where c1: "call now c (snd step) (b, fst step s) = (r, b1, s1)"
    by (metis prod_cases3)
  obtain rs1 where c2: "calls now c steps (b1, s1) = (rs1, b', s')" and rs: "rs = r # rs1"
    using Cons.prems(3) c1 by (auto split: prod.splits)
  from rs Cons.prems(4) obtain e where r: "r = Inl e" by (cases r) auto
  have "tripped now c (Suc k) b1 s1"
    using tripped_step [OF Cons.prems(1) _ c1 [unfolded r]] Cons.prems(2) by simp
  from Cons.IH [OF this _ c2] Cons.prems(2,4) rs
  show ?case by simp
qed

text \<open>
  C1, as the code has it. When the failure counter has reached the threshold and the
  permitted-retry timestamp has elapsed, the next call resets the counter to zero and invokes the
  wrapped operation. A success leaves the counter at zero. A failure of that probe leaves it at
  one: the breaker re-opens, with the timestamp moved to now + timeout, only when the threshold is
  at most one; for a larger threshold it stays closed and the timestamp is not touched.
\<close>

theorem breaker_probe_after_timeout:
  "threshold c \<le> failures b \<and> nextAttempt b \<le> now s \<longrightarrow>
     call now c fn (b, s) =
       (case fn s of
          (Inr r, s1) \<Rightarrow> (Inr r, \<lparr>failures = 0, nextAttempt = nextAttempt b\<rparr>, s1)
        | (Inl e, s1) \<Rightarrow>
            (Inl e,
             if threshold c \<le> 1 then \<lparr>failures = 1, nextAttempt = now s1 + timeout c\<rparr>
             else \<lparr>failures = 1, nextAttempt = nextAttempt b\<rparr>,
             s1))"
  by (auto simp: call_def Let_def split: prod.splits sum.splits)

theorem breaker_probe_after_timeout_witness:
  "call wall_clock default_cfg down (\<lparr>failures = 5, nextAttempt = 60000\<rparr>, 70000) =
     (Inl (NetworkError ''connect ECONNREFUSED'' None), \<lparr>failures = 1, nextAttempt = 60000\<rparr>, 70010)
   \<and> call wall_clock (default_cfg\<lparr>threshold := 1\<rparr>) down
        (\<lparr>failures = 1, nextAttempt = 60000\<rparr>, 70000) =
     (Inl (NetworkError ''connect ECONNREFUSED'' None), \<lparr>failures = 1, nextAttempt = 130010\<rparr>, 70010)"
  using breaker_probe_after_timeout
      [of default_cfg "\<lparr>failures = 5, nextAttempt = 60000\<rparr>" wall_clock 70000 down]
    breaker_probe_after_timeout
      [of "default_cfg\<lparr>threshold := 1\<rparr>" "\<lparr>failures = 1, nextAttempt = 60000\<rparr>" wall_clock
        70000 down]
  by (simp add: default_cfg_def wall_clock_def down_def)

text \<open>
  C1, as the claim states it, fails: with the default threshold 5, a breaker whose counter is 5
  and whose timestamp 60000 has elapsed at time 70000 runs the probe, the probe fails, and the
  breaker ends with counter 1, below the threshold, its timestamp still 60000, and is not open.
\<close>

theorem breaker_probe_failure_counterexample:
  "threshold default_cfg \<le> failures \<lparr>failures = 5, nextAttempt = 60000\<rparr>
   \<and> nextAttempt \<lparr>failures = 5, nextAttempt = 60000\<rparr> \<le> wall_clock 70000
   \<and> call wall_clock default_cfg down (\<lparr>failures = 5, nextAttempt = 60000\<rparr>, 70000) =
       (Inl (NetworkError ''connect ECONNREFUSED'' None), \<lparr>failures = 1, nextAttempt = 60000\<rparr>, 70010)
   \<and> \<not> threshold default_cfg \<le> failures \<lparr>failures = 1, nextAttempt = 60000\<rparr>
   \<and> nextAttempt \<lparr>failures = 1, nextAttempt = 60000\<rparr> \<noteq> wall_clock 70010 + timeout default_cfg
   \<and> \<not> isOpen (getStatus default_cfg \<lparr>failures = 1, nextAttempt = 60000\<rparr> (wall_clock 70010))"
  by (simp add: call_def default_cfg_def wall_clock_def down_def getStatus_def)

text \<open>
  C6. After a run of at least \<open>threshold\<close> calls that all failed, on a breaker whose counter
  started non-negative and under a clock that never runs backwards, every call made before the
  permitted-retry timestamp fails at once with the service-unavailable error and leaves breaker
  and state as they were, whatever the wrapped operation is: it is not invoked. The failure that
  brings the counter to the threshold sets the timestamp to now + timeout. A call that returns a
  value leaves the counter at zero. The defaults are 5 failures and 60000 ms.
\<close>

theorem breaker_fail_fast_and_reset:
  "(0 \<le> failures b0 \<and> (\<forall>step \<in> set steps. clock_mono now step) \<and>
    calls now c steps (b0, s0) = (rs, b, s) \<and> (\<forall>r \<in> set rs. isl r) \<and>
    threshold c \<le> int (length steps) \<and> now s \<le> now s' \<and> now s' < nextAttempt b
    \<longrightarrow> call now c fn (b, s') = (Inl (ApiError (open_message c) None), b, s'))
   \<and> (failures b < threshold c \<and> threshold c \<le> failures b + 1 \<and> op s = (Inl e, s1)
    \<longrightarrow> call now c op (b, s) =
          (Inl e, \<lparr>failures = failures b + 1, nextAttempt = now s1 + timeout c\<rparr>, s1))
   \<and> (call now c op (b, s) = (Inr r, b', s2) \<longrightarrow> failures b' = 0)
   \<and> threshold default_cfg = 5 \<and> timeout default_cfg = 60000"
proof (intro conjI impI)
  assume a: "0 \<le> failures b0 \<and> (\<forall>step \<in> set steps. clock_mono now step) \<and>
    calls now c steps (b0, s0) = (rs, b, s) \<and> (\<forall>r \<in> set rs. isl r) \<and>
    threshold c \<le> int (length steps) \<and> now s \<le> now s' \<and> now s' < nextAttempt b"
  then have "tripped now c 0 b0 s0" by (simp add: tripped_def)
  from tripped_calls [OF this, of steps rs b s] a
  have "tripped now c (length steps) b s" by simp
  with a have "threshold c \<le> failures b" by (auto simp: tripped_def)
  with a show "call now c fn (b, s') = (Inl (ApiError (open_message c) None), b, s')"
    by (simp add: call_fail_fast)
qed (auto simp: call_reaches_threshold default_cfg_def dest: call_success_resets)

theorem breaker_fail_fast_and_reset_witness:
  "calls wall_clock default_cfg (replicate 5 (pause_1s, down)) (new_breaker 0, 0) =
     (replicate 5 (Inl (NetworkError ''connect ECONNREFUSED'' None)),
      \<lparr>failures = 5, nextAttempt = 65050\<rparr>, 5050)
   \<and> call wall_clock default_cfg up (\<lparr>failures = 5, nextAttempt = 65050\<rparr>, 6000) =
       (Inl (ApiError (open_message default_cfg) None), \<lparr>failures = 5, nextAttempt = 65050\<rparr>, 6000)
   \<and> call wall_clock default_cfg down (\<lparr>failures = 4, nextAttempt = 0\<rparr>, 4040) =
       (Inl (NetworkError ''connect ECONNREFUSED'' None),
        \<lparr>failures = failures \<lparr>failures = 4, nextAttempt = 0\<rparr> + 1,
         nextAttempt = wall_clock 4050 + timeout default_cfg\<rparr>, 4050)
   \<and> failures \<lparr>failures = 0, nextAttempt = 0 :: int\<rparr> = 0"
proof -
  have run: "calls wall_clock default_cfg (replicate 5 (pause_1s, down)) (new_breaker 0, 0) =
     (replicate 5 (Inl (NetworkError ''connect ECONNREFUSED'' None)),
      \<lparr>failures = 5, nextAttempt = 65050\<rparr>, 5050)"
    by code_simp
  have mono: "\<forall>step \<in> set (replicate 5 (pause_1s, down)). clock_mono wall_clock step"
    by (simp add: clock_mono_def wall_clock_def pause_1s_def down_def)
  have h0: "0 \<le> failures (new_breaker 0)"
    by (simp add: new_breaker_def)
  have h1: "\<forall>r \<in> set (replicate 5 (Inl (NetworkError ''connect ECONNREFUSED'' None) :: error + unit)). isl r"
    by simp
  have h2: "threshold default_cfg \<le> int (length (replicate 5 (pause_1s, down)))"
    by (simp add: default_cfg_def)
  have h3: "wall_clock 5050 \<le> wall_clock 6000"
    by (simp add: wall_clock_def)
  have h4: "wall_clock 6000 < nextAttempt \<lparr>failures = 5, nextAttempt = 65050\<rparr>"
    by (simp add: wall_clock_def)
  have g0: "failures \<lparr>failures = 4, nextAttempt = 0\<rparr> < threshold default_cfg"
    by (simp add: default_cfg_def)
  have g1: "threshold default_cfg \<le> failures \<lparr>failures = 4, nextAttempt = 0\<rparr> + 1"
    by (simp add: default_cfg_def)
  have g2: "down 4040 = (Inl (NetworkError ''connect ECONNREFUSED'' None), 4050)"
    by (simp add: down_def)
  have up4: "call wall_clock default_cfg up (\<lparr>failures = 4, nextAttempt = 0\<rparr>, 4040) =
      (Inr (), \<lparr>failures = 0, nextAttempt = 0\<rparr>, 4050)"
    by code_simp
  note t = breaker_fail_fast_and_reset
      [where ?b0.0 = "new_breaker 0" and steps = "replicate 5 (pause_1s, down)"
         and now = wall_clock and c = default_cfg and ?s0.0 = 0
         and rs = "replicate 5 (Inl (NetworkError ''connect ECONNREFUSED'' None))"
         and b = "\<lparr>failures = 5, nextAttempt = 65050\<rparr>" and s = 5050 and s' = 6000 and fn = up]
  note u = breaker_fail_fast_and_reset
      [where now = wall_clock and c = default_cfg and b = "\<lparr>failures = 4, nextAttempt = 0\<rparr>"
         and s = 4040 and op = down and e = "NetworkError ''connect ECONNREFUSED'' None"
         and ?s1.0 = 4050]
  note v = breaker_fail_fast_and_reset
      [where now = wall_clock and c = default_cfg and b = "\<lparr>failures = 4, nextAttempt = 0\<rparr>"
         and s = 4040 and op = up and r = "()" and b' = "\<lparr>failures = 0, nextAttempt = 0\<rparr>"
         and ?s2.0 = 4050]
  have 1: "call wall_clock default_cfg up (\<lparr>failures = 5, nextAttempt = 65050\<rparr>, 6000) =
       (Inl (ApiError (open_message default_cfg) None), \<lparr>failures = 5, nextAttempt = 65050\<rparr>, 6000)"
    by (rule t [THEN conjunct1, THEN mp]) (intro conjI h0 mono run h1 h2 h3 h4)
  have 2: "call wall_clock default_cfg down (\<lparr>failures = 4, nextAttempt = 0\<rparr>, 4040) =
       (Inl (NetworkError ''connect ECONNREFUSED'' None),
        \<lparr>failures = failures \<lparr>failures = 4, nextAttempt = 0\<rparr> + 1,
         nextAttempt = wall_clock 4050 + timeout default_cfg\<rparr>, 4050)"
    by (rule u [THEN conjunct2, THEN conjunct1, THEN mp]) (intro conjI g0 g1 g2)
  have 3: "failures \<lparr>failures = 0, nextAttempt = 0 :: int\<rparr> = 0"
    by (rule v [THEN conjunct2, THEN conjunct2, THEN conjunct1, THEN mp]) (rule up4)
  show ?thesis by (intro conjI run 1 2 3)
qed

section \<open>Properties of the retry loop\<close>

lemma retryLoop_exhausts:
  assumes fails: "\<And>t. \<exists>e. fst (fn t) = Inl e \<and> retryable e"
    and tick: "\<And>t. cnt (snd (fn t)) = Suc (cnt t)"
    and quiet: "\<And>t. cnt (snd (jitter T t)) = cnt t" "\<And>d t. cnt (sleep T d t) = cnt t"
  shows "attempt \<le> maxR \<Longrightarrow> k = nat (maxR - attempt) \<Longrightarrow>
     \<exists>s'. cnt s' = cnt s + k \<and> retryLoop T maxR backoff retryable fn attempt lastE s = fn s'"
proof (induction k arbitrary: attempt lastE s)
  case 0
  then have eq: "attempt = maxR" by simp
  obtain e s1 where f: "fn s = (Inl e, s1)"
    using fails [of s] by (cases "fn s") auto
  have "retryLoop T maxR backoff retryable fn attempt lastE s = fn s"
    by (subst retryLoop.simps) (simp add: eq f)
  then show ?case by auto
next
  case (Suc k)
  then have lt: "attempt < maxR" and k: "k = nat (maxR - (attempt + 1))" by simp_all
  obtain e s1 where f: "fn s = (Inl e, s1)" and re: "retryable e"
    using fails [of s] by (cases "fn s") auto
  obtain j s2 where jt: "jitter T s1 = (j, s2)" by (cases "jitter T s1")
  let ?s3 = "sleep T (backoff * 2 ^ nat attempt + j) s2"
  have unfold: "retryLoop T maxR backoff retryable fn attempt lastE s =
      retryLoop T maxR backoff retryable fn (attempt + 1) e ?s3"
    using lt re by (subst retryLoop.simps) (simp add: f jt)
  have c3: "cnt ?s3 = Suc (cnt s)"
    using quiet(2) [of _ s2] quiet(1) [of s1] tick [of s] by (simp add: f jt)
  from Suc.IH [of "attempt + 1" ?s3 e] lt k
  obtain s' where "cnt s' = cnt ?s3 + k"
    and "retryLoop T maxR backoff retryable fn (attempt + 1) e ?s3 = fn s'"
    by auto
  then show ?case using unfold c3 by auto
qed

lemma retryLoop_gives_up:
  "attempt \<le> maxR \<Longrightarrow> fn s = (Inl e, s1) \<Longrightarrow> \<not> retryable e \<Longrightarrow>
   retryLoop T maxR backoff retryable fn attempt lastE s = (Inl e, s1)"
  by (subst retryLoop.simps) simp

text \<open>
  C5. Let \<open>maxRetries\<close> be \<open>n \<ge> 0\<close> and the predicate the default one. \<open>cnt\<close> is any counter
  of invocations: the operation adds one to it and the timers leave it alone. If the operation
  fails with a retryable error every time, the call returns exactly what the operation returned
  at its invocation number \<open>n + 1\<close> (the one started with the counter \<open>n\<close> higher), so the
  counter ends \<open>n + 1\<close> higher and the last failure is raised unchanged. If the operation fails
  with an error that is not retryable, the call returns that failure and the state right after
  this one invocation. An error with status 401 or 403, and any error that is not a network
  error, is not retryable.
\<close>

theorem retry_policy:
  "(0 \<le> n \<and> maxRetries opts = Some n \<and> retryableErrors opts = None \<and>
    (\<forall>t. \<exists>e. fst (fn t) = Inl e \<and> defaultRetryable e) \<and>
    (\<forall>t. cnt (snd (fn t)) = Suc (cnt t)) \<and>
    (\<forall>t. cnt (snd (jitter T t)) = cnt t) \<and> (\<forall>d t. cnt (sleep T d t) = cnt t)
    \<longrightarrow> (\<exists>s'. cnt s' = cnt s + nat n \<and> resilientApiCall T fn opts s = fn s') \<and>
         cnt (snd (resilientApiCall T fn opts s)) = cnt s + nat n + 1)
   \<and> (0 \<le> n \<and> maxRetries opts = Some n \<and> retryableErrors opts = None \<and>
      fn s = (Inl e, s1) \<and> \<not> defaultRetryable e
    \<longrightarrow> resilientApiCall T fn opts s = (Inl e, s1))
   \<and> (statusCode e = Some 401 \<or> statusCode e = Some 403 \<or> cls e \<noteq> ClsNetwork
    \<longrightarrow> \<not> defaultRetryable e)"
proof (intro conjI impI)
  assume a: "0 \<le> n \<and> maxRetries opts = Some n \<and> retryableErrors opts = None \<and>
    (\<forall>t. \<exists>e. fst (fn t) = Inl e \<and> defaultRetryable e) \<and>
    (\<forall>t. cnt (snd (fn t)) = Suc (cnt t)) \<and>
    (\<forall>t. cnt (snd (jitter T t)) = cnt t) \<and> (\<forall>d t. cnt (sleep T d t) = cnt t)"
  let ?b = "case backoffMs opts of None \<Rightarrow> 1000 | Some b \<Rightarrow> b"
  from a have "\<exists>s'. cnt s' = cnt s + nat n \<and>
      retryLoop T n ?b defaultRetryable fn 0 thrownUndefined s = fn s'"
    by (intro retryLoop_exhausts [where cnt = cnt]) auto
  with a show ex: "\<exists>s'. cnt s' = cnt s + nat n \<and> resilientApiCall T fn opts s = fn s'"
    by (simp add: resilientApiCall_def)
  then obtain s' where "cnt s' = cnt s + nat n" "resilientApiCall T fn opts s = fn s'"
    by blast
  with a show "cnt (snd (resilientApiCall T fn opts s)) = cnt s + nat n + 1"
    by simp
next
  assume "0 \<le> n \<and> maxRetries opts = Some n \<and> retryableErrors opts = None \<and>
      fn s = (Inl e, s1) \<and> \<not> defaultRetryable e"
  then show "resilientApiCall T fn opts s = (Inl e, s1)"
    by (simp add: resilientApiCall_def retryLoop_gives_up)
next
  assume "statusCode e = Some 401 \<or> statusCode e = Some 403 \<or> cls e \<noteq> ClsNetwork"
  then show "\<not> defaultRetryable e" by (auto simp: defaultRetryable_def)
qed

theorem retry_policy_witness:
  "id (snd (resilientApiCall no_timers unavailable two_retries 0)) = id 0 + nat 2 + 1
   \<and> resilientApiCall no_timers forbidden two_retries 0 =
       (Inl (NetworkError ''HTTP 403: Forbidden'' (Some 403)), 1)
   \<and> \<not> defaultRetryable (NetworkError ''HTTP 403: Forbidden'' (Some 403))"
proof -
  have h0: "(0::int) \<le> 2" by simp
  have h1: "maxRetries two_retries = Some 2" by (simp add: two_retries_def)
  have h2: "retryableErrors two_retries = None" by (simp add: two_retries_def)
  have h3: "\<forall>t. \<exists>e. fst (unavailable t) = Inl e \<and> defaultRetryable e"
    by (simp add: unavailable_def defaultRetryable_def NetworkError_def)
  have h4: "\<forall>t. id (snd (unavailable t)) = Suc (id t)"
    by (simp add: unavailable_def)
  have h5: "\<forall>t. id (snd (jitter no_timers t)) = id t"
    by (simp add: no_timers_def)
  have h6: "\<forall>d t. id (sleep no_timers d t) = id t"
    by (simp add: no_timers_def)
  have g: "forbidden 0 = (Inl (NetworkError ''HTTP 403: Forbidden'' (Some 403)), 1)"
    by (simp add: forbidden_def)
  have ng: "\<not> defaultRetryable (NetworkError ''HTTP 403: Forbidden'' (Some 403))"
    by (simp add: defaultRetryable_def NetworkError_def)
  have sc: "statusCode (NetworkError ''HTTP 403: Forbidden'' (Some 403)) = Some 401
      \<or> statusCode (NetworkError ''HTTP 403: Forbidden'' (Some 403)) = Some 403
      \<or> cls (NetworkError ''HTTP 403: Forbidden'' (Some 403)) \<noteq> ClsNetwork"
    by (simp add: NetworkError_def)
  note t = retry_policy [where n = 2 and opts = two_retries and fn = unavailable and cnt = id
      and T = no_timers and s = 0]
  note u = retry_policy [where n = 2 and opts = two_retries and fn = forbidden and T = no_timers
      and s = 0 and e = "NetworkError ''HTTP 403: Forbidden'' (Some 403)" and ?s1.0 = 1]
  have 1: "id (snd (resilientApiCall no_timers unavailable two_retries 0)) = id 0 + nat 2 + 1"
    by (rule t [THEN conjunct1, THEN mp, THEN conjunct2]) (intro conjI h0 h1 h2 h3 h4 h5 h6)
  have 2: "resilientApiCall no_timers forbidden two_retries 0 =
       (Inl (NetworkError ''HTTP 403: Forbidden'' (Some 403)), 1)"
    by (rule u [THEN conjunct2, THEN conjunct1, THEN mp]) (intro conjI h0 h1 h2 g ng)
  have 3: "\<not> defaultRetryable (NetworkError ''HTTP 403: Forbidden'' (Some 403))"
    by (rule u [THEN conjunct2, THEN conjunct2, THEN mp]) (rule sc)
  show ?thesis by (intro conjI 1 2 3)
qed

section \<open>Properties of the client factory\<close>

lemma of_char_lower_char:
  "(of_char (lower_char c) :: nat) =
     (if (65 \<le> (of_char c :: nat) \<and> (of_char c :: nat) \<le> 90)
         \<or> (192 \<le> (of_char c :: nat) \<and> (of_char c :: nat) \<le> 222 \<and> (of_char c :: nat) \<noteq> 215)
      then of_char c + 32 else of_char c)"
  by (auto simp: lower_char_def Let_def of_char_of)

lemma lower_char_letter:
  assumes "(of_char d :: nat) \<in> {97..122}"
  shows "lower_char c = d \<longleftrightarrow> (of_char c :: nat) = of_char d \<or> (of_char c :: nat) + 32 = of_char d"
proof -
  have "lower_char c = d \<longleftrightarrow> (of_char (lower_char c) :: nat) = of_char d"
    by (simp add: of_char_eq_iff)
  also have "\<dots> \<longleftrightarrow> (of_char c :: nat) = of_char d \<or> (of_char c :: nat) + 32 = of_char d"
    using assms by (auto simp: of_char_lower_char)
  finally show ?thesis .
qed

lemma of_char_is: "(of_char c :: nat) = of_char d \<longleftrightarrow> c = d"
  by (simp add: of_char_eq_iff)

lemma lower_char_cases:
  "lower_char c = CHR ''x'' \<longleftrightarrow> c = CHR ''x'' \<or> c = CHR ''X''"
  "lower_char c = CHR ''t'' \<longleftrightarrow> c = CHR ''t'' \<or> c = CHR ''T''"
  "lower_char c = CHR ''l'' \<longleftrightarrow> c = CHR ''l'' \<or> c = CHR ''L''"
  "lower_char c = CHR ''s'' \<longleftrightarrow> c = CHR ''s'' \<or> c = CHR ''S''"
proof -
  have x: "(of_char c :: nat) + 32 = of_char CHR ''x'' \<longleftrightarrow> (of_char c :: nat) = of_char CHR ''X''"
    and t: "(of_char c :: nat) + 32 = of_char CHR ''t'' \<longleftrightarrow> (of_char c :: nat) = of_char CHR ''T''"
    and l: "(of_char c :: nat) + 32 = of_char CHR ''l'' \<longleftrightarrow> (of_char c :: nat) = of_char CHR ''L''"
    and s: "(of_char c :: nat) + 32 = of_char CHR ''s'' \<longleftrightarrow> (of_char c :: nat) = of_char CHR ''S''"
    by auto
  show "lower_char c = CHR ''x'' \<longleftrightarrow> c = CHR ''x'' \<or> c = CHR ''X''"
    by (subst lower_char_letter) (simp_all only: x of_char_is, simp)
  show "lower_char c = CHR ''t'' \<longleftrightarrow> c = CHR ''t'' \<or> c = CHR ''T''"
    by (subst lower_char_letter) (simp_all only: t of_char_is, simp)
  show "lower_char c = CHR ''l'' \<longleftrightarrow> c = CHR ''l'' \<or> c = CHR ''L''"
    by (subst lower_char_letter) (simp_all only: l of_char_is, simp)
  show "lower_char c = CHR ''s'' \<longleftrightarrow> c = CHR ''s'' \<or> c = CHR ''S''"
    by (subst lower_char_letter) (simp_all only: s of_char_is, simp)
qed

lemma map4:
  "map f xs = [p, q, r, s] \<longleftrightarrow>
     (\<exists>a b c d. xs = [a, b, c, d] \<and> f a = p \<and> f b = q \<and> f c = r \<and> f d = s)"
  by (auto simp: map_eq_Cons_conv)

lemma toLowerCase_xtls:
  "toLowerCase sec = ''xtls'' \<longleftrightarrow>
     (\<exists>a b c d. sec = [a, b, c, d] \<and> a \<in> {CHR ''x'', CHR ''X''} \<and> b \<in> {CHR ''t'', CHR ''T''}
        \<and> c \<in> {CHR ''l'', CHR ''L''} \<and> d \<in> {CHR ''s'', CHR ''S''})"
  unfolding toLowerCase_def map4
  by (simp only: lower_char_cases insert_iff empty_iff simp_thms)

lemma flow_explicit:
  "vless r = Some v \<Longrightarrow> vless_flow v = Some f \<Longrightarrow> determineVlessFlow ib r = f"
  by (simp add: determineVlessFlow_def)

lemma flow_derived:
  assumes "vless r = None \<or> (\<exists>v. vless r = Some v \<and> vless_flow v = None)"
  shows "determineVlessFlow ib r =
          (if \<exists>ss sec. streamSettings ib = Some ss \<and> stream_security ss = Some sec
                \<and> toLowerCase sec = ''xtls''
           then ''xtls-rprx-vision'' else [])"
proof -
  have n: "(case vless r of None \<Rightarrow> None | Some v \<Rightarrow> vless_flow v) = None"
    using assms by auto
  show ?thesis
  proof (cases "streamSettings ib")
    case None
    then show ?thesis by (simp add: determineVlessFlow_def n)
  next
    case (Some ss)
    then show ?thesis
      by (cases "stream_security ss") (simp_all add: determineVlessFlow_def n Let_def)
  qed
qed

text \<open>
  C3. A flow given in the request is returned as it is. With none given, the flow is
  \<^verbatim>\<open>xtls-rprx-vision\<close> exactly when the inbound has stream settings whose security, in lower
  case, is \<^verbatim>\<open>xtls\<close>, and the empty string in every other case: any other security, any network,
  no security, no stream settings. A string is \<^verbatim>\<open>xtls\<close> in lower case exactly when it is those
  four letters, each in either case.
\<close>

theorem vless_flow_derivation:
  "(vless r = Some v \<and> vless_flow v = Some f \<longrightarrow> determineVlessFlow ib r = f)
   \<and> ((vless r = None \<or> (\<exists>v. vless r = Some v \<and> vless_flow v = None)) \<longrightarrow>
        determineVlessFlow ib r =
          (if \<exists>ss sec. streamSettings ib = Some ss \<and> stream_security ss = Some sec
                \<and> toLowerCase sec = ''xtls''
           then ''xtls-rprx-vision'' else []))
   \<and> (toLowerCase sec = ''xtls'' \<longleftrightarrow>
        (\<exists>a b c d. sec = [a, b, c, d] \<and> a \<in> {CHR ''x'', CHR ''X''} \<and> b \<in> {CHR ''t'', CHR ''T''}
           \<and> c \<in> {CHR ''l'', CHR ''L''} \<and> d \<in> {CHR ''s'', CHR ''S''}))"
  using flow_explicit [of r v f ib] flow_derived [of r ib] toLowerCase_xtls [of sec]
  by blast

theorem vless_flow_derivation_witness:
  "determineVlessFlow xtls_inbound (plain_request\<lparr>vless := Some \<lparr>vless_flow = Some ''custom''\<rparr>\<rparr>)
     = ''custom''
   \<and> determineVlessFlow xtls_inbound plain_request = ''xtls-rprx-vision''"
proof -
  have a: "vless (plain_request\<lparr>vless := Some \<lparr>vless_flow = Some ''custom''\<rparr>\<rparr>)
             = Some \<lparr>vless_flow = Some ''custom''\<rparr>
           \<and> vless_flow \<lparr>vless_flow = Some ''custom''\<rparr> = Some ''custom''"
    by simp
  have b: "vless plain_request = None \<or> (\<exists>v. vless plain_request = Some v \<and> vless_flow v = None)"
    by (simp add: plain_request_def)
  have l: "toLowerCase ''XTLS'' = ''xtls''"
    by code_simp
  have c: "\<exists>ss sec. streamSettings xtls_inbound = Some ss \<and> stream_security ss = Some sec
                \<and> toLowerCase sec = ''xtls''"
    by (simp add: xtls_inbound_def l)
  note t = vless_flow_derivation
      [where r = "plain_request\<lparr>vless := Some \<lparr>vless_flow = Some ''custom''\<rparr>\<rparr>"
         and v = "\<lparr>vless_flow = Some ''custom''\<rparr>" and f = "''custom''" and ib = xtls_inbound]
  note u = vless_flow_derivation [where r = plain_request and ib = xtls_inbound]
  have 1: "determineVlessFlow xtls_inbound
      (plain_request\<lparr>vless := Some \<lparr>vless_flow = Some ''custom''\<rparr>\<rparr>) = ''custom''"
    by (rule t [THEN conjunct1, THEN mp]) (rule a)
  have "determineVlessFlow xtls_inbound plain_request =
          (if \<exists>ss sec. streamSettings xtls_inbound = Some ss \<and> stream_security ss = Some sec
                \<and> toLowerCase sec = ''xtls''
           then ''xtls-rprx-vision'' else [])"
    by (rule u [THEN conjunct2, THEN conjunct1, THEN mp]) (rule b)
  with c have 2: "determineVlessFlow xtls_inbound plain_request = ''xtls-rprx-vision''"
    by (simp only: if_True)
  show ?thesis by (intro conjI 1 2)
qed

lemma limitIp_created:
  "limitIp (fst (createClientForProtocol E ib r s)) =
     (if numTruthy (req_limitIp r) then convertIpLimit (the (req_limitIp r)) else 2)"
  by (simp add: createClientForProtocol_def Let_def split: prod.splits option.splits)

lemma subId_created:
  "subId (fst (createClientForProtocol E ib r s)) = req_subId r"
  by (simp add: createClientForProtocol_def Let_def split: prod.splits option.splits)

lemma numTruthy_cases:
  "numTruthy None = False" "numTruthy (Some Unlimited) = True"
  "numTruthy (Some (Value n)) = (n \<noteq> 0)"
  by (simp_all add: numTruthy_def)

text \<open>
  C10. When the request has no IP limit, or the limit 0, the synthesized client has the limit 2.
  The synthesized limit is 0 exactly when the request says \<^verbatim>\<open>unlimited\<close> or gives a negative
  number. The request validator accepts the limit 0 just as it accepts an absent limit.
\<close>

theorem ip_limit_default:
  "(req_limitIp r = None \<or> req_limitIp r = Some (Value 0)
      \<longrightarrow> limitIp (fst (createClientForProtocol E ib r s)) = 2)
   \<and> (limitIp (fst (createClientForProtocol E ib r s)) = 0
      \<longleftrightarrow> req_limitIp r = Some Unlimited \<or> (\<exists>n<0. req_limitIp r = Some (Value n)))
   \<and> validateMassClientRequest (r\<lparr>req_limitIp := Some (Value 0)\<rparr>)
       = validateMassClientRequest (r\<lparr>req_limitIp := None\<rparr>)"
proof (intro conjI impI)
  assume "req_limitIp r = None \<or> req_limitIp r = Some (Value 0)"
  then show "limitIp (fst (createClientForProtocol E ib r s)) = 2"
    by (auto simp: limitIp_created numTruthy_cases)
next
  show "limitIp (fst (createClientForProtocol E ib r s)) = 0
      \<longleftrightarrow> req_limitIp r = Some Unlimited \<or> (\<exists>n<0. req_limitIp r = Some (Value n))"
  proof (cases "req_limitIp r")
    case None
    then show ?thesis by (simp add: limitIp_created numTruthy_cases)
  next
    case (Some v)
    then show ?thesis
      by (cases v) (auto simp: limitIp_created numTruthy_cases convertIpLimit_def)
  qed
next
  show "validateMassClientRequest (r\<lparr>req_limitIp := Some (Value 0)\<rparr>)
       = validateMassClientRequest (r\<lparr>req_limitIp := None\<rparr>)"
    by (simp add: validateMassClientRequest_def)
qed

section \<open>Properties of the session and the request path\<close>

lemma sent_makeRawRequest:
  assumes "records S sent"
  shows "sent (snd (makeRawRequest S x path ini w)) = sent w @ [rawRequest x path ini]"
proof -
  obtain r w1 where f: "fetch S (rawRequest x path ini) w = (r, w1)"
    by (cases "fetch S (rawRequest x path ini) w")
  have "sent w1 = sent w @ [rawRequest x path ini]"
    using assms f by (metis records_def snd_conv)
  then show ?thesis
    by (cases r) (simp_all add: makeRawRequest_def f)
qed

lemma login_unfold:
  "login S (x, w) =
     (case makeRawRequest S x ''/login'' (login_init S x) w of
       (Inl e, w1) \<Rightarrow> login_failed S x e w1
     | (Inr r, w1) \<Rightarrow>
         if pickCookie (setCookie r) = [] then
           login_failed S x (AuthenticationError ''No session cookie received from server'') w1
         else
           (Inr (),
            x\<lparr>sessionCookie := Some (pickCookie (setCookie r)), isAuthenticated := True,
              lastLoginTime := clock S w1\<rparr>,
            w1))"
  by (simp add: login_def Let_def split: prod.splits sum.splits)

lemma login_world:
  "snd (snd (login S (x, w))) = snd (makeRawRequest S x ''/login'' (login_init S x) w)"
  by (simp add: login_unfold login_failed_def split: prod.splits sum.splits)

lemma sent_login:
  "records S sent \<Longrightarrow> sent (snd (snd (login S (x, w)))) = sent w @ [loginRequest S x]"
  by (simp add: login_world sent_makeRawRequest loginRequest_def)

lemma login_ok:
  assumes "login S (x, w) = (Inr u, x3, w3)"
  shows "isAuthenticated x3 \<and> truthy (sessionCookie x3) \<and> lastLoginTime x3 = clock S w3
    \<and> baseUrl x3 = baseUrl x \<and> username x3 = username x \<and> userPassword x3 = userPassword x
    \<and> requestTimeout x3 = requestTimeout x \<and> retryAttempts x3 = retryAttempts x
    \<and> retryDelay x3 = retryDelay x \<and> circuitBreaker x3 = circuitBreaker x"
  using assms
  by (auto simp: login_unfold login_failed_def truthy_def split: prod.splits sum.splits if_splits)

lemma login_bad:
  assumes "login S (x, w) = (Inl e, x3, w3)"
  shows "\<not> isAuthenticated x3 \<and> sessionCookie x3 = None \<and> circuitBreaker x3 = circuitBreaker x"
  using assms
  by (auto simp: login_unfold login_failed_def split: prod.splits sum.splits if_splits)

lemma ensure_stale: "stale S x w \<Longrightarrow> ensureAuthenticated S (x, w) = login S (x, w)"
  by (auto simp: ensureAuthenticated_def stale_def Let_def)

lemma ensure_fresh: "\<not> stale S x w \<Longrightarrow> ensureAuthenticated S (x, w) = (Inr (), x, w)"
  by (auto simp: ensureAuthenticated_def stale_def Let_def)


lemma makeHttpRequest_denied:
  "ensureAuthenticated S (x, w) = (Inl e, xw1) \<Longrightarrow> makeHttpRequest S path ini (x, w) = (Inl e, xw1)"
  by (simp add: makeHttpRequest_def)

lemma makeHttpRequest_admitted:
  "ensureAuthenticated S (x, w) = (Inr u, x1, w1) \<Longrightarrow>
   makeHttpRequest S path ini (x, w) =
     (case makeRawRequest S x1 path (requestInit x1 ini) w1 of
        (Inl e, w2) \<Rightarrow> (Inl e, x1, w2)
      | (Inr r, w2) \<Rightarrow>
          if status r = 401 then
            (case login S (x1\<lparr>isAuthenticated := False, sessionCookie := None\<rparr>, w2) of
               (Inl e, xw3) \<Rightarrow> (Inl e, xw3)
             | (Inr u, x3, w3) \<Rightarrow>
                 (case makeRawRequest S x3 path (replayInit x3 (requestInit x1 ini)) w3 of
                    (res, w4) \<Rightarrow> (res, x3, w4)))
          else (Inr r, x1, w2))"
  by (simp add: makeHttpRequest_def)

lemma sent_after_admission:
  assumes rec: "records S sent" and ea: "ensureAuthenticated S (x, w) = (Inr u, x1, w1)"
  shows "\<exists>rest. sent (snd (snd (makeHttpRequest S path ini (x, w)))) =
           sent w1 @ rawRequest x1 path (requestInit x1 ini) # rest"
proof -
  let ?rq = "rawRequest x1 path (requestInit x1 ini)"
  obtain res w2 where raw: "makeRawRequest S x1 path (requestInit x1 ini) w1 = (res, w2)"
    by (cases "makeRawRequest S x1 path (requestInit x1 ini) w1")
  have s2: "sent w2 = sent w1 @ [?rq]"
    using sent_makeRawRequest [OF rec, of x1 path "requestInit x1 ini" w1] raw by simp
  show ?thesis
  proof (cases res)
    case (Inl e)
    then show ?thesis using s2 by (simp add: makeHttpRequest_admitted [OF ea] raw)
  next
    case (Inr r)
    show ?thesis
    proof (cases "status r = 401")
      case False
      then show ?thesis using s2 Inr by (simp add: makeHttpRequest_admitted [OF ea] raw)
    next
      case True
      let ?x2 = "x1\<lparr>isAuthenticated := False, sessionCookie := None\<rparr>"
      obtain lr x3 w3 where lg: "login S (?x2, w2) = (lr, x3, w3)"
        by (cases "login S (?x2, w2)") auto
      have s3: "sent w3 = sent w2 @ [loginRequest S ?x2]"
        using sent_login [OF rec, of ?x2 w2] lg by simp
      show ?thesis
      proof (cases lr)
        case (Inl e)
        then show ?thesis
          using s2 s3 Inr True by (simp add: makeHttpRequest_admitted [OF ea] raw lg)
      next
        case (Inr v)
        obtain res4 w4 where rp:
          "makeRawRequest S x3 path (replayInit x3 (requestInit x1 ini)) w3 = (res4, w4)"
          by (cases "makeRawRequest S x3 path (replayInit x3 (requestInit x1 ini)) w3")
        have "sent w4 = sent w3 @ [rawRequest x3 path (replayInit x3 (requestInit x1 ini))]"
          using sent_makeRawRequest [OF rec, of x3 path "replayInit x3 (requestInit x1 ini)" w3] rp
          by simp
        then show ?thesis
          using s2 s3 \<open>res = Inr r\<close> True Inr
          by (simp add: makeHttpRequest_admitted [OF ea] raw lg rp)
      qed
    qed
  qed
qed

text \<open>
  C8. \<open>sent\<close> is any record of the requests handed to \<^verbatim>\<open>fetch\<close>. A session is stale when
  the flag is unset, or no cookie is held, or more than one hour has passed since the last login.
  On a stale session \<^verbatim>\<open>ensureAuthenticated\<close> is one \<^verbatim>\<open>login\<close>, which issues the login request and
  nothing else; when that login fails the privileged call fails with its error and issues no
  request; when it succeeds the next request issued is the original one, built with the new
  session. On a session that is not stale \<^verbatim>\<open>ensureAuthenticated\<close> changes nothing and the first
  request issued is the original one.
\<close>

theorem session_freshness:
  "(records S sent \<and> stale S x w \<longrightarrow>
      ensureAuthenticated S (x, w) = login S (x, w)
      \<and> sent (snd (snd (ensureAuthenticated S (x, w)))) = sent w @ [loginRequest S x]
      \<and> (\<forall>e xw1. login S (x, w) = (Inl e, xw1) \<longrightarrow>
            makeHttpRequest S path ini (x, w) = (Inl e, xw1))
      \<and> (\<forall>u x1 w1. login S (x, w) = (Inr u, x1, w1) \<longrightarrow>
            (\<exists>rest. sent (snd (snd (makeHttpRequest S path ini (x, w)))) =
               sent w @ loginRequest S x # rawRequest x1 path (requestInit x1 ini) # rest)))
   \<and> (records S sent \<and> \<not> stale S x w \<longrightarrow>
      ensureAuthenticated S (x, w) = (Inr (), x, w)
      \<and> (\<exists>rest. sent (snd (snd (makeHttpRequest S path ini (x, w)))) =
            sent w @ rawRequest x path (requestInit x ini) # rest))
   \<and> (stale S x w \<longleftrightarrow>
        \<not> isAuthenticated x \<or> \<not> truthy (sessionCookie x)
        \<or> clock S w - lastLoginTime x > 60 * 60 * 1000)"
proof (intro conjI impI allI)
  assume a: "records S sent \<and> stale S x w"
  then show e: "ensureAuthenticated S (x, w) = login S (x, w)"
    by (simp add: ensure_stale)
  show "sent (snd (snd (ensureAuthenticated S (x, w)))) = sent w @ [loginRequest S x]"
    using a by (simp add: e sent_login)
next
  fix e xw1
  assume a: "records S sent \<and> stale S x w" and l: "login S (x, w) = (Inl e, xw1)"
  then show "makeHttpRequest S path ini (x, w) = (Inl e, xw1)"
    by (simp add: makeHttpRequest_denied ensure_stale)
next
  fix u x1 w1
  assume a: "records S sent \<and> stale S x w" and l: "login S (x, w) = (Inr u, x1, w1)"
  then have ea: "ensureAuthenticated S (x, w) = (Inr u, x1, w1)"
    by (simp add: ensure_stale)
  have "sent w1 = sent w @ [loginRequest S x]"
    using sent_login [of S sent x w] a l by simp
  with sent_after_admission [OF _ ea, of sent path ini] a
  show "\<exists>rest. sent (snd (snd (makeHttpRequest S path ini (x, w)))) =
               sent w @ loginRequest S x # rawRequest x1 path (requestInit x1 ini) # rest"
    by simp
next
  assume a: "records S sent \<and> \<not> stale S x w"
  then show ea: "ensureAuthenticated S (x, w) = (Inr (), x, w)"
    by (simp add: ensure_fresh)
  from sent_after_admission [OF _ ea, of sent path ini] a
  show "\<exists>rest. sent (snd (snd (makeHttpRequest S path ini (x, w)))) =
            sent w @ rawRequest x path (requestInit x ini) # rest"
    by simp
next
  show "stale S x w \<longleftrightarrow>
        \<not> isAuthenticated x \<or> \<not> truthy (sessionCookie x)
        \<or> clock S w - lastLoginTime x > 60 * 60 * 1000"
    by (simp add: stale_def)
qed

theorem session_freshness_witness:
  "ensureAuthenticated scripted (session0, net_late) = login scripted (session0, net_late)
   \<and> outbox (snd (snd (ensureAuthenticated scripted (session0, net_late)))) =
       outbox net_late @ [loginRequest scripted session0]
   \<and> ensureAuthenticated scripted (session0, net_replay) = (Inr (), session0, net_replay)
   \<and> map url (outbox (snd (snd (makeHttpRequest scripted ''/list'' get_init (session0, net_late)))))
       = [''http://panel/login'', ''http://panel/list'']"
proof -
  have rec: "records scripted outbox"
    by (simp add: records_def scripted_def)
  have st: "stale scripted session0 net_late"
    by (simp add: stale_def scripted_def session0_def net_late_def)
  have fr: "\<not> stale scripted session0 net_replay"
    by (simp add: stale_def scripted_def session0_def net_replay_def net_of_def truthy_def)
  note t = session_freshness [where S = scripted and sent = outbox and x = session0
      and w = net_late, THEN conjunct1, THEN mp, OF conjI [OF rec st]]
  note u = session_freshness [where S = scripted and sent = outbox and x = session0
      and w = net_replay, THEN conjunct2, THEN conjunct1, THEN mp, OF conjI [OF rec fr]]
  have 4: "map url (outbox (snd (snd (makeHttpRequest scripted ''/list'' get_init
              (session0, net_late))))) = [''http://panel/login'', ''http://panel/list'']"
    by code_simp
  show ?thesis
    by (intro conjI t [THEN conjunct1] t [THEN conjunct2, THEN conjunct1] u [THEN conjunct1] 4)
qed

lemma spread_single: "map_of (spread a [(k, v)]) k = Some v"
  by (simp add: spread_def update_conv')

lemma distinct_spread: "distinct (map fst a) \<Longrightarrow> distinct (map fst (spread a b))"
  unfolding spread_def
  by (induction b arbitrary: a) (simp_all add: distinct_update)

lemma map_of_spread:
  "distinct (map fst b) \<Longrightarrow>
   map_of (spread hs b) x = (case map_of b x of None \<Rightarrow> map_of hs x | Some v \<Rightarrow> Some v)"
  unfolding spread_def
proof (induction b arbitrary: hs)
  case Nil
  then show ?case by simp
next
  case (Cons kv b)
  obtain k v where kv: "kv = (k, v)" by (cases kv)
  from Cons.prems kv have none: "map_of b k = None"
    by (simp add: map_of_eq_None_iff)
  have "map_of (fold (\<lambda>kv. AList.update (fst kv) (snd kv)) b (AList.update k v hs)) x =
        (case map_of b x of None \<Rightarrow> map_of (AList.update k v hs) x | Some v \<Rightarrow> Some v)"
    using Cons.IH [of "AList.update k v hs"] Cons.prems by simp
  then show ?case
    using none by (auto simp: kv update_conv' split: option.splits)
qed

lemma replay_cookie:
  "map_of (init_headers (init (rawRequest x3 path (replayInit x3 (requestInit x1 ini))))) ''Cookie''
     = Some (or_else (sessionCookie x3) [])"
proof -
  let ?b1 = "spread [(''Cookie'', or_else (sessionCookie x1) []), (''Content-Type'', ''application/json'')]
               (init_headers ini)"
  let ?b2 = "spread ?b1 [(''Cookie'', or_else (sessionCookie x3) [])]"
  have "distinct (map fst ?b1)" by (rule distinct_spread) simp
  then have d2: "distinct (map fst ?b2)" by (rule distinct_spread)
  have "map_of (spread [(''User-Agent'', ''3xui-api-client/1.0.0'')] ?b2) ''Cookie''
          = map_of ?b2 ''Cookie''"
    by (simp add: map_of_spread [OF d2] spread_single)
  then show ?thesis
    by (simp add: rawRequest_def replayInit_def requestInit_def spread_single)
qed

lemma attemptOnce_unfold:
  "attemptOnce S path ini (x, w) =
     (case call (\<lambda>xw. clock S (snd xw)) api_breaker (makeHttpRequest S path ini)
            (circuitBreaker x, x, w) of
       (Inl e, b, x1, w1) \<Rightarrow> (Inl e, x1\<lparr>circuitBreaker := b\<rparr>, w1)
     | (Inr r, b, x1, w1) \<Rightarrow>
         if \<not> ok r then
           (Inl (handleHttpError r (messageOf S (responseData S r)) (fieldOf S (responseData S r))),
            x1\<lparr>circuitBreaker := b\<rparr>, w1)
         else (Inr (responseData S r), x1\<lparr>circuitBreaker := b\<rparr>, w1))"
  by (simp add: attemptOnce_def Let_def split: prod.splits sum.splits)

lemma call_admitted_ok:
  assumes "\<not> (threshold c \<le> failures b \<and> now s < nextAttempt b)" and "fn s = (Inr r, s1)"
  shows "call now c fn (b, s) = (Inr r, \<lparr>failures = 0, nextAttempt = nextAttempt b\<rparr>, s1)"
  using assms by (auto simp: call_def Let_def)

lemma attemptOnce_unauthorized:
  assumes adm: "\<not> (threshold api_breaker \<le> failures (circuitBreaker x)
                  \<and> clock S w < nextAttempt (circuitBreaker x))"
    and mk: "makeHttpRequest S path ini (x, w) = (Inr r3, x3, w4)" and st: "status r3 = 401"
  shows "attemptOnce S path ini (x, w) =
     (Inl (AuthenticationError ''Invalid credentials or session expired''),
      x3\<lparr>circuitBreaker := \<lparr>failures = 0, nextAttempt = nextAttempt (circuitBreaker x)\<rparr>\<rparr>, w4)"
proof -
  have "call (\<lambda>xw. clock S (snd xw)) api_breaker (makeHttpRequest S path ini)
          (circuitBreaker x, x, w) =
        (Inr r3, \<lparr>failures = 0, nextAttempt = nextAttempt (circuitBreaker x)\<rparr>, x3, w4)"
    using adm mk by (intro call_admitted_ok) simp_all
  then show ?thesis
    using st by (simp add: attemptOnce_unfold ok_def handleHttpError_def)
qed

lemma request_terminal:
  assumes "0 \<le> retryAttempts x" and "attemptOnce S path ini (x, w) = (Inl e, xw')"
    and "\<not> defaultRetryable e"
  shows "request S path ini (x, w) = (Inl e, xw')"
  using assms by (simp add: request_def resilientApiCall_def retryLoop_gives_up)

lemma ensure_keeps:
  assumes "ensureAuthenticated S (x, w) = (Inr u, x1, w1)"
  shows "retryAttempts x1 = retryAttempts x \<and> circuitBreaker x1 = circuitBreaker x
         \<and> baseUrl x1 = baseUrl x \<and> username x1 = username x \<and> userPassword x1 = userPassword x"
proof (cases "stale S x w")
  case True
  with assms have "login S (x, w) = (Inr u, x1, w1)" by (simp add: ensure_stale)
  from login_ok [OF this] show ?thesis by simp
next
  case False
  with assms show ?thesis by (simp add: ensure_fresh)
qed

lemma loginRequest_cong:
  "baseUrl y = baseUrl x \<Longrightarrow> username y = username x \<Longrightarrow> userPassword y = userPassword x \<Longrightarrow>
   loginRequest S y = loginRequest S x"
  by (simp add: loginRequest_def rawRequest_def login_init_def)

text \<open>
  C4, as the code has it. \<open>sent\<close> is any record of the requests handed to \<^verbatim>\<open>fetch\<close>. Take a
  privileged call that got past \<^verbatim>\<open>ensureAuthenticated\<close> and whose request was answered with
  status 401. The client clears the flag and the cookie and logs in once. If that login succeeds,
  the original request is replayed once, after the login request and carrying the new cookie,
  and its outcome is the outcome of the call; when the replay is answered 401 again, the call
  through the breaker and the retry loop ends with the authentication error after this single
  attempt, the breaker having counted a success. If that login fails, its error is the outcome,
  the login request is the last request issued and the session stays cleared: there is no replay.
\<close>

theorem unauthorized_replay:
  "records S sent \<and> ensureAuthenticated S (x, w) = (Inr u, x1, w1)
   \<and> makeRawRequest S x1 path (requestInit x1 ini) w1 = (Inr r1, w2) \<and> status r1 = 401
   \<longrightarrow>
   (\<forall>v x3 w3 res w4.
      login S (x1\<lparr>isAuthenticated := False, sessionCookie := None\<rparr>, w2) = (Inr v, x3, w3)
      \<and> makeRawRequest S x3 path (replayInit x3 (requestInit x1 ini)) w3 = (res, w4)
      \<longrightarrow>
        makeHttpRequest S path ini (x, w) = (res, x3, w4)
        \<and> sent w4 = sent w2 @ [loginRequest S x1,
                               rawRequest x3 path (replayInit x3 (requestInit x1 ini))]
        \<and> isAuthenticated x3 \<and> truthy (sessionCookie x3)
        \<and> map_of (init_headers (init (rawRequest x3 path (replayInit x3 (requestInit x1 ini)))))
             ''Cookie'' = sessionCookie x3
        \<and> (\<forall>r3. res = Inr r3 \<and> status r3 = 401 \<and> 0 \<le> retryAttempts x
                \<and> \<not> (threshold api_breaker \<le> failures (circuitBreaker x)
                       \<and> clock S w < nextAttempt (circuitBreaker x))
              \<longrightarrow> request S path ini (x, w) =
                    (Inl (AuthenticationError ''Invalid credentials or session expired''),
                     x3\<lparr>circuitBreaker :=
                          \<lparr>failures = 0, nextAttempt = nextAttempt (circuitBreaker x)\<rparr>\<rparr>,
                     w4)))
   \<and> (\<forall>e x3 w3.
        login S (x1\<lparr>isAuthenticated := False, sessionCookie := None\<rparr>, w2) = (Inl e, x3, w3)
        \<longrightarrow>
          makeHttpRequest S path ini (x, w) = (Inl e, x3, w3)
          \<and> sent w3 = sent w2 @ [loginRequest S x1]
          \<and> \<not> isAuthenticated x3 \<and> sessionCookie x3 = None)"
proof (intro impI conjI allI)
  fix v x3 w3 res w4
  let ?x2 = "x1\<lparr>isAuthenticated := False, sessionCookie := None\<rparr>"
  let ?rp = "replayInit x3 (requestInit x1 ini)"
  assume a: "records S sent \<and> ensureAuthenticated S (x, w) = (Inr u, x1, w1)
     \<and> makeRawRequest S x1 path (requestInit x1 ini) w1 = (Inr r1, w2) \<and> status r1 = 401"
    and b: "login S (?x2, w2) = (Inr v, x3, w3) \<and> makeRawRequest S x3 path ?rp w3 = (res, w4)"
  from a have ea: "ensureAuthenticated S (x, w) = (Inr u, x1, w1)" by simp
  show mk: "makeHttpRequest S path ini (x, w) = (res, x3, w4)"
    using a b by (simp add: makeHttpRequest_admitted [OF ea])
  have lq: "loginRequest S ?x2 = loginRequest S x1"
    by (rule loginRequest_cong) simp_all
  have s3: "sent w3 = sent w2 @ [loginRequest S x1]"
    using sent_login [of S sent ?x2 w2] a b lq by simp
  have s4: "sent w4 = sent w3 @ [rawRequest x3 path ?rp]"
    using sent_makeRawRequest [of S sent x3 path ?rp w3] a b by simp
  show "sent w4 = sent w2 @ [loginRequest S x1, rawRequest x3 path ?rp]"
    using s3 s4 by simp
  from b have lg: "login S (?x2, w2) = (Inr v, x3, w3)" by simp
  note ok3 = login_ok [OF lg]
  show "isAuthenticated x3" and t3: "truthy (sessionCookie x3)"
    using ok3 by simp_all
  show "map_of (init_headers (init (rawRequest x3 path ?rp))) ''Cookie'' = sessionCookie x3"
    using t3 by (auto simp: replay_cookie or_else_def truthy_def)
  show "request S path ini (x, w) =
          (Inl (AuthenticationError ''Invalid credentials or session expired''),
           x3\<lparr>circuitBreaker := \<lparr>failures = 0, nextAttempt = nextAttempt (circuitBreaker x)\<rparr>\<rparr>, w4)"
    if c: "res = Inr r3 \<and> status r3 = 401 \<and> 0 \<le> retryAttempts x
          \<and> \<not> (threshold api_breaker \<le> failures (circuitBreaker x)
                 \<and> clock S w < nextAttempt (circuitBreaker x))" for r3
  proof (rule request_terminal)
    show "0 \<le> retryAttempts x" using c by simp
    show "attemptOnce S path ini (x, w) =
      (Inl (AuthenticationError ''Invalid credentials or session expired''),
       x3\<lparr>circuitBreaker := \<lparr>failures = 0, nextAttempt = nextAttempt (circuitBreaker x)\<rparr>\<rparr>, w4)"
      using c mk by (intro attemptOnce_unauthorized [where ?r3.0 = r3]) simp_all
    show "\<not> defaultRetryable (AuthenticationError ''Invalid credentials or session expired'')"
      by (simp add: defaultRetryable_def AuthenticationError_def)
  qed
next
  fix e x3 w3
  let ?x2 = "x1\<lparr>isAuthenticated := False, sessionCookie := None\<rparr>"
  assume a: "records S sent \<and> ensureAuthenticated S (x, w) = (Inr u, x1, w1)
     \<and> makeRawRequest S x1 path (requestInit x1 ini) w1 = (Inr r1, w2) \<and> status r1 = 401"
    and b: "login S (?x2, w2) = (Inl e, x3, w3)"
  from a have ea: "ensureAuthenticated S (x, w) = (Inr u, x1, w1)" by simp
  show "makeHttpRequest S path ini (x, w) = (Inl e, x3, w3)"
    using a b by (simp add: makeHttpRequest_admitted [OF ea])
  have lq: "loginRequest S ?x2 = loginRequest S x1"
    by (rule loginRequest_cong) simp_all
  show "sent w3 = sent w2 @ [loginRequest S x1]"
    using sent_login [of S sent ?x2 w2] a b lq by simp
  show "\<not> isAuthenticated x3" "sessionCookie x3 = None"
    using login_bad [OF b] by simp_all
qed

theorem unauthorized_replay_witness:
  "fst (request scripted ''/list'' get_init (session0, net_replay)) =
     Inl (AuthenticationError ''Invalid credentials or session expired'')
   \<and> map url (outbox (snd (snd (request scripted ''/list'' get_init (session0, net_replay))))) =
       [''http://panel/list'', ''http://panel/login'', ''http://panel/list'']
   \<and> \<not> isAuthenticated (fst (snd (makeHttpRequest scripted ''/list'' get_init (session0, net_refused))))
   \<and> map url (outbox (snd (snd (makeHttpRequest scripted ''/list'' get_init (session0, net_refused))))) =
       [''http://panel/list'', ''http://panel/login'']"
proof -
  have rec: "records scripted outbox"
    by (simp add: records_def scripted_def)
  let ?x2 = "session0\<lparr>isAuthenticated := False, sessionCookie := None\<rparr>"
  let ?w2 = "snd (makeRawRequest scripted session0 ''/list'' (requestInit session0 get_init) net_replay)"
  let ?x3 = "fst (snd (login scripted (?x2, ?w2)))"
  let ?w3 = "snd (snd (login scripted (?x2, ?w2)))"
  let ?w4 = "snd (makeRawRequest scripted ?x3 ''/list''
               (replayInit ?x3 (requestInit session0 get_init)) ?w3)"
  have h1: "ensureAuthenticated scripted (session0, net_replay) = (Inr (), session0, net_replay)"
    by code_simp
  have h2: "makeRawRequest scripted session0 ''/list'' (requestInit session0 get_init) net_replay
              = (Inr unauthorized, ?w2)"
    by code_simp
  have h3: "status unauthorized = 401"
    by (simp add: unauthorized_def)
  have h4: "login scripted (?x2, ?w2) = (Inr (), ?x3, ?w3)"
    by code_simp
  have h5: "makeRawRequest scripted ?x3 ''/list''
               (replayInit ?x3 (requestInit session0 get_init)) ?w3 = (Inr unauthorized, ?w4)"
    by code_simp
  have h6: "0 \<le> retryAttempts session0"
    by (simp add: session0_def)
  have h7: "\<not> (threshold api_breaker \<le> failures (circuitBreaker session0)
               \<and> clock scripted net_replay < nextAttempt (circuitBreaker session0))"
    by (simp add: session0_def api_breaker_def new_breaker_def)
  note t = unauthorized_replay
      [where S = scripted and sent = outbox and x = session0 and w = net_replay and u = "()"
         and ?x1.0 = session0 and ?w1.0 = net_replay and path = "''/list''" and ini = get_init
         and ?r1.0 = unauthorized and ?w2.0 = ?w2,
       THEN mp, OF conjI [OF rec conjI [OF h1 conjI [OF h2 h3]]]]
  note a = t [THEN conjunct1, THEN spec, THEN spec, THEN spec, THEN spec, THEN spec, THEN mp,
      of "()" ?x3 ?w3 "Inr unauthorized" ?w4, OF conjI [OF h4 h5]]
  note r = a [THEN conjunct2, THEN conjunct2, THEN conjunct2, THEN conjunct2, THEN conjunct2,
      THEN spec, THEN mp, of unauthorized, OF conjI [OF refl conjI [OF h3 conjI [OF h6 h7]]]]
  have 1: "fst (request scripted ''/list'' get_init (session0, net_replay)) =
     Inl (AuthenticationError ''Invalid credentials or session expired'')"
    by (simp only: r fst_conv)
  have 2: "map url (outbox (snd (snd (request scripted ''/list'' get_init (session0, net_replay))))) =
       [''http://panel/list'', ''http://panel/login'', ''http://panel/list'']"
    by code_simp
  let ?v2 = "snd (makeRawRequest scripted session0 ''/list'' (requestInit session0 get_init) net_refused)"
  let ?e = "projl (fst (login scripted (?x2, ?v2)))"
  let ?y3 = "fst (snd (login scripted (?x2, ?v2)))"
  let ?v3 = "snd (snd (login scripted (?x2, ?v2)))"
  have g1: "ensureAuthenticated scripted (session0, net_refused) = (Inr (), session0, net_refused)"
    by code_simp
  have g2: "makeRawRequest scripted session0 ''/list'' (requestInit session0 get_init) net_refused
              = (Inr unauthorized, ?v2)"
    by code_simp
  have g4: "login scripted (?x2, ?v2) = (Inl ?e, ?y3, ?v3)"
    by code_simp
  note t' = unauthorized_replay
      [where S = scripted and sent = outbox and x = session0 and w = net_refused and u = "()"
         and ?x1.0 = session0 and ?w1.0 = net_refused and path = "''/list''" and ini = get_init
         and ?r1.0 = unauthorized and ?w2.0 = ?v2,
       THEN mp, OF conjI [OF rec conjI [OF g1 conjI [OF g2 h3]]]]
  note b = t' [THEN conjunct2, THEN spec, THEN spec, THEN spec, THEN mp, of ?e ?y3 ?v3, OF g4]
  have 3: "\<not> isAuthenticated (fst (snd (makeHttpRequest scripted ''/list'' get_init (session0, net_refused))))"
    using b by (simp only: fst_conv snd_conv) simp
  have 4: "map url (outbox (snd (snd (makeHttpRequest scripted ''/list'' get_init (session0, net_refused))))) =
       [''http://panel/list'', ''http://panel/login'']"
    by code_simp
  show ?thesis by (intro conjI 1 2 3 4)
qed

text \<open>
  C4, as the claim states it, fails: the first request is answered 401 and the login that
  follows is rejected by the network. No replay is issued; the retry loop runs the call again,
  which logs in a second time; the call ends with a network error, not an authentication error.
\<close>

theorem unauthorized_replay_counterexample:
  "replies net_down = [Responded unauthorized, Rejected ''down''] \<and> status unauthorized = 401
   \<and> map url (outbox (snd (snd (request scripted ''/list'' get_init (session0, net_down))))) =
       [''http://panel/list'', ''http://panel/login'', ''http://panel/login'']
   \<and> cls (projl (fst (request scripted ''/list'' get_init (session0, net_down)))) = ClsNetwork
   \<and> isl (fst (request scripted ''/list'' get_init (session0, net_down)))"
  by code_simp

section \<open>Properties of the client factory, continued\<close>

theorem ip_limit_default_witness:
  "limitIp (fst (createClientForProtocol panel_env xtls_inbound plain_request panel0)) = 2
   \<and> limitIp (fst (createClientForProtocol panel_env xtls_inbound
        (plain_request\<lparr>req_limitIp := Some Unlimited\<rparr>) panel0)) = 0"
proof -
  have h: "req_limitIp plain_request = None \<or> req_limitIp plain_request = Some (Value 0)"
    by (simp add: plain_request_def)
  have g: "req_limitIp (plain_request\<lparr>req_limitIp := Some Unlimited\<rparr>) = Some Unlimited
      \<or> (\<exists>n<0. req_limitIp (plain_request\<lparr>req_limitIp := Some Unlimited\<rparr>) = Some (Value n))"
    by simp
  note t = ip_limit_default [where r = plain_request and E = panel_env and ib = xtls_inbound
      and s = panel0, THEN conjunct1, THEN mp, OF h]
  note u = ip_limit_default [where r = "plain_request\<lparr>req_limitIp := Some Unlimited\<rparr>"
      and E = panel_env and ib = xtls_inbound and s = panel0,
      THEN conjunct2, THEN conjunct1, THEN iffD2, OF g]
  show ?thesis by (intro conjI t u)
qed

section \<open>Properties of the subscription scan\<close>

lemma firstSeen_snoc:
  "firstSeen (xs @ [a]) = (if a \<in> set xs then firstSeen xs else firstSeen xs @ [a])"
  by (simp add: firstSeen_def)

lemma set_firstSeen: "set (firstSeen xs) = set xs"
  by (simp add: firstSeen_def)

lemma distinct_firstSeen: "distinct (firstSeen xs)"
  by (simp add: firstSeen_def)

lemma update_keyed:
  "distinct ks \<Longrightarrow>
   AList.update k v (map (\<lambda>a. (a, f a)) ks) =
     (if k \<in> set ks then map (\<lambda>a. (a, if a = k then v else f a)) ks
      else map (\<lambda>a. (a, f a)) ks @ [(k, v)])"
  by (induction ks) auto

lemma map_of_keyed:
  "map_of (map (\<lambda>a. (a, f a)) ks) k = (if k \<in> set ks then Some (f k) else None)"
  by (induction ks) auto

lemma groupOf_snoc:
  "groupOf (ms @ [mb]) a =
     (if a = tagOf mb then (groupOf ms a)\<lparr>sub_clients := sub_clients (groupOf ms a) @ [mb]\<rparr>
      else groupOf ms a)"
  by (auto simp: groupOf_def)

lemma groupOf_fresh:
  "sid \<notin> tagOf ` set ms \<Longrightarrow> groupOf ms sid = \<lparr>sub_subId = sid, sub_clients = []\<rparr>"
  by (auto simp: groupOf_def filter_empty_conv)

lemma pushMember_tagged:
  assumes "truthy (subId c)"
  shows "pushMember ib c (rep ms) = rep (ms @ [memberOf ib c])"
proof -
  let ?mb = "memberOf ib c"
  let ?sid = "the (subId c)"
  have tag: "tagOf ?mb = ?sid" by (simp add: tagOf_def memberOf_def)
  let ?ks = "firstSeen (map tagOf ms)"
  show ?thesis
  proof (cases "?sid \<in> set (map tagOf ms)")
    case True
    then have "pushMember ib c (rep ms) =
        map (\<lambda>a. (a, if a = ?sid then (groupOf ms ?sid)\<lparr>sub_clients :=
                     sub_clients (groupOf ms ?sid) @ [?mb]\<rparr> else groupOf ms a)) ?ks"
      using assms
      by (simp add: pushMember_def rep_def Let_def map_of_keyed update_keyed set_firstSeen
          distinct_firstSeen memberOf_def)
    also have "\<dots> = rep (ms @ [?mb])"
      using True by (auto simp: rep_def firstSeen_snoc tag groupOf_snoc)
    finally show ?thesis .
  next
    case False
    then have fresh: "groupOf ms ?sid = \<lparr>sub_subId = ?sid, sub_clients = []\<rparr>"
      by (intro groupOf_fresh) simp
    from False have "pushMember ib c (rep ms) =
        map (\<lambda>a. (a, groupOf ms a)) ?ks @ [(?sid, \<lparr>sub_subId = ?sid, sub_clients = [?mb]\<rparr>)]"
      using assms
      by (simp add: pushMember_def rep_def Let_def map_of_keyed update_keyed set_firstSeen
          distinct_firstSeen memberOf_def)
    also have "\<dots> = rep (ms @ [?mb])"
    proof -
      have "\<And>a. a \<in> set ?ks \<Longrightarrow> a \<noteq> ?sid"
        using False by (metis set_firstSeen)
      then have "map (\<lambda>a. (a, groupOf (ms @ [?mb]) a)) ?ks = map (\<lambda>a. (a, groupOf ms a)) ?ks"
        by (intro map_cong refl) (simp add: groupOf_snoc tag)
      then show ?thesis
        using False fresh by (simp add: rep_def firstSeen_snoc tag groupOf_snoc)
    qed
    finally show ?thesis .
  qed
qed

lemma pushMember_untagged: "\<not> truthy (subId c) \<Longrightarrow> pushMember ib c m = m"
  by (simp add: pushMember_def)

lemma fold_pushMember:
  "fold (pushMember ib) cs (rep ms) =
     rep (ms @ map (memberOf ib) (filter (\<lambda>c. truthy (subId c)) cs))"
proof (induction cs arbitrary: ms)
  case Nil
  then show ?case by simp
next
  case (Cons c cs)
  show ?case
  proof (cases "truthy (subId c)")
    case True
    then show ?thesis
      using Cons.IH [of "ms @ [memberOf ib c]"] by (simp add: pushMember_tagged)
  next
    case False
    then show ?thesis using Cons.IH [of ms] by (simp add: pushMember_untagged)
  qed
qed

lemma scanClients_rep:
  "scanClients ib cs (rep ms) =
     rep (ms @ map (memberOf ib) (filter (\<lambda>c. truthy (subId c)) (nullish cs [])))"
  by (cases cs) (simp_all add: scanClients_def nullish_def fold_pushMember)

lemma taggedMembers_Cons:
  "taggedMembers E (ib # ibs) =
     map (memberOf ib) (filter (\<lambda>c. truthy (subId c)) (readClients E ib)) @ taggedMembers E ibs"
  by (simp add: taggedMembers_def)

lemma scanInbounds_rep:
  "scanInbounds E ibs (rep ms) s =
     (rep (ms @ taggedMembers E ibs), fold (warn E) (parseWarnings E ibs) s)"
proof (induction ibs arbitrary: ms s)
  case Nil
  then show ?case by (simp add: taggedMembers_def parseWarnings_def)
next
  case (Cons ib ibs)
  show ?case
  proof (cases "settings ib")
    case None
    then show ?thesis
      using Cons.IH [of ms s]
      by (simp add: taggedMembers_Cons readClients_def parseWarnings_def)
  next
    case (Some b)
    show ?thesis
    proof (cases b)
      case (SettingsObject st)
      then show ?thesis
        using Some Cons.IH
        by (simp add: taggedMembers_Cons readClients_def parseWarnings_def scanClients_rep)
    next
      case (SettingsText t)
      show ?thesis
      proof (cases "parseSettings E t")
        case (Inl e)
        then show ?thesis
          using Some SettingsText Cons.IH
          by (simp add: taggedMembers_Cons readClients_def parseWarnings_def)
      next
        case (Inr st)
        then show ?thesis
          using Some SettingsText Cons.IH
          by (simp add: taggedMembers_Cons readClients_def parseWarnings_def scanClients_rep)
      qed
    qed
  qed
qed

lemma rep_values: "map snd (rep ms) = grouped ms"
  by (simp add: rep_def grouped_def comp_def)

lemma rep_Nil: "rep [] = []"
  by (simp add: rep_def firstSeen_def)

lemma getAllSubscriptions_grouped:
  assumes "get E (getPath ''/list'') s = (Inr resp, s1)" "success resp"
    "obj resp = Some (InboundList ibs)"
  shows "getAllSubscriptions E s =
     (Inr (grouped (taggedMembers E ibs)), fold (warn E) (parseWarnings E ibs) s1)"
  using assms scanInbounds_rep [of E ibs "[]" s1]
  by (simp add: getAllSubscriptions_def rep_Nil rep_values)

lemma tagged_iff:
  "mb \<in> set (taggedMembers E ibs) \<longleftrightarrow>
     (\<exists>ib \<in> set ibs. \<exists>c \<in> set (readClients E ib). truthy (subId c) \<and> mb = memberOf ib c)"
  by (auto simp: taggedMembers_def)

lemma tagged_intro:
  "ib \<in> set ibs \<Longrightarrow> c \<in> set (readClients E ib) \<Longrightarrow> truthy (subId c) \<Longrightarrow>
   memberOf ib c \<in> set (taggedMembers E ibs)"
  by (auto simp: taggedMembers_def)

lemma tags_carried:
  "tagOf ` set (taggedMembers E ibs) =
     {sid. sid \<noteq> [] \<and> (\<exists>ib \<in> set ibs. \<exists>c \<in> set (readClients E ib). subId c = Some sid)}"
proof (intro set_eqI iffI)
  fix sid
  assume "sid \<in> tagOf ` set (taggedMembers E ibs)"
  then obtain ib c where "ib \<in> set ibs" "c \<in> set (readClients E ib)" "truthy (subId c)"
    and "sid = tagOf (memberOf ib c)"
    by (auto simp: tagged_iff)
  then show "sid \<in> {sid. sid \<noteq> [] \<and>
      (\<exists>ib \<in> set ibs. \<exists>c \<in> set (readClients E ib). subId c = Some sid)}"
    by (auto simp: tagOf_def memberOf_def truthy_def)
next
  fix sid
  assume "sid \<in> {sid. sid \<noteq> [] \<and>
      (\<exists>ib \<in> set ibs. \<exists>c \<in> set (readClients E ib). subId c = Some sid)}"
  then obtain ib c where i: "ib \<in> set ibs" "c \<in> set (readClients E ib)"
    and s: "subId c = Some sid" "sid \<noteq> []"
    by auto
  then have "memberOf ib c \<in> set (taggedMembers E ibs)"
    by (intro tagged_intro) (simp_all add: truthy_def)
  moreover have "tagOf (memberOf ib c) = sid"
    using s by (simp add: tagOf_def memberOf_def)
  ultimately show "sid \<in> tagOf ` set (taggedMembers E ibs)"
    by (metis image_eqI)
qed

lemma length_grouped: "length (grouped ms) = card (tagOf ` set ms)"
proof -
  have "length (grouped ms) = card (set (firstSeen (map tagOf ms)))"
    by (simp add: grouped_def distinct_card distinct_firstSeen)
  then show ?thesis by (simp add: set_firstSeen)
qed

lemma ids_grouped: "map sub_subId (grouped ms) = firstSeen (map tagOf ms)"
  by (simp add: grouped_def groupOf_def comp_def)

lemma group_members:
  "g \<in> set (grouped ms) \<Longrightarrow> sub_clients g = filter (\<lambda>mb. tagOf mb = sub_subId g) ms"
  by (auto simp: grouped_def groupOf_def)

lemma group_has:
  "mb \<in> set ms \<Longrightarrow> \<exists>g \<in> set (grouped ms). sub_subId g = tagOf mb \<and> mb \<in> set (sub_clients g)"
proof -
  assume m: "mb \<in> set ms"
  then have "groupOf ms (tagOf mb) \<in> set (grouped ms)"
    by (simp add: grouped_def set_firstSeen)
  moreover have "sub_subId (groupOf ms (tagOf mb)) = tagOf mb"
    and "mb \<in> set (sub_clients (groupOf ms (tagOf mb)))"
    using m by (simp_all add: groupOf_def)
  ultimately show ?thesis by blast
qed

lemma skip_unreadable:
  assumes "unreadable E ib"
  shows "taggedMembers E (xs @ ib # ys) = taggedMembers E (xs @ ys)"
    and "\<exists>e. parseWarnings E (xs @ ib # ys) = parseWarnings E xs @ parseWarning ib e # parseWarnings E ys"
  using assms
  by (auto simp: unreadable_def taggedMembers_def parseWarnings_def readClients_def
      split: option.splits settings_blob.splits sum.splits)

text \<open>
  C7. When the inbound list is fetched, \<^verbatim>\<open>getAllSubscriptions\<close> returns the grouping of the
  tagged members of that list and has warned once for each inbound whose settings text does not
  parse. There are exactly as many groups as there are distinct non-empty subscription ids
  among the clients read from the inbounds; a client with such an id is, with its inbound, in
  the group of that id, whichever inbound holds it; every member of a group carries the id of
  the group, so a client without an id is in no group; the groups come in the order in which
  their ids first appear, and each holds its members in the order of the scan. An inbound whose
  settings text does not parse adds one warning and no member, and the inbounds around it are
  read as if it were not there.
\<close>

theorem subscription_grouping:
  "(get E (getPath ''/list'') s = (Inr resp, s1) \<and> success resp \<and> obj resp = Some (InboundList ibs)
    \<longrightarrow> getAllSubscriptions E s =
          (Inr (grouped (taggedMembers E ibs)), fold (warn E) (parseWarnings E ibs) s1))
   \<and> length (grouped (taggedMembers E ibs)) =
       card {sid. sid \<noteq> [] \<and> (\<exists>ib \<in> set ibs. \<exists>c \<in> set (readClients E ib). subId c = Some sid)}
   \<and> (\<forall>ib \<in> set ibs. \<forall>c \<in> set (readClients E ib). \<forall>sid. subId c = Some sid \<and> sid \<noteq> [] \<longrightarrow>
         (\<exists>g \<in> set (grouped (taggedMembers E ibs)).
            sub_subId g = sid \<and> memberOf ib c \<in> set (sub_clients g)))
   \<and> (\<forall>g \<in> set (grouped (taggedMembers E ibs)). \<forall>mb \<in> set (sub_clients g).
         subId (member_client mb) = Some (sub_subId g) \<and> sub_subId g \<noteq> []
         \<and> mb \<in> set (taggedMembers E ibs))
   \<and> map sub_subId (grouped (taggedMembers E ibs)) = firstSeen (map tagOf (taggedMembers E ibs))
   \<and> distinct (map sub_subId (grouped (taggedMembers E ibs)))
   \<and> (\<forall>g \<in> set (grouped (taggedMembers E ibs)).
         sub_clients g = filter (\<lambda>mb. tagOf mb = sub_subId g) (taggedMembers E ibs))
   \<and> (unreadable E ib \<longrightarrow>
         taggedMembers E (xs @ ib # ys) = taggedMembers E (xs @ ys)
         \<and> (\<exists>e. parseWarnings E (xs @ ib # ys) =
               parseWarnings E xs @ parseWarning ib e # parseWarnings E ys))"
proof (intro conjI impI ballI allI)
  assume "get E (getPath ''/list'') s = (Inr resp, s1) \<and> success resp
      \<and> obj resp = Some (InboundList ibs)"
  then show "getAllSubscriptions E s =
          (Inr (grouped (taggedMembers E ibs)), fold (warn E) (parseWarnings E ibs) s1)"
    by (simp add: getAllSubscriptions_grouped)
next
  show "length (grouped (taggedMembers E ibs)) =
       card {sid. sid \<noteq> [] \<and> (\<exists>ib \<in> set ibs. \<exists>c \<in> set (readClients E ib). subId c = Some sid)}"
    by (simp only: length_grouped tags_carried)
next
  fix ib c sid
  assume i: "ib \<in> set ibs" "c \<in> set (readClients E ib)" and s: "subId c = Some sid \<and> sid \<noteq> []"
  then have "memberOf ib c \<in> set (taggedMembers E ibs)"
    by (intro tagged_intro) (simp_all add: truthy_def)
  from group_has [OF this] s
  show "\<exists>g \<in> set (grouped (taggedMembers E ibs)).
            sub_subId g = sid \<and> memberOf ib c \<in> set (sub_clients g)"
    by (simp add: tagOf_def memberOf_def)
next
  fix g mb
  assume g: "g \<in> set (grouped (taggedMembers E ibs))" and m: "mb \<in> set (sub_clients g)"
  from m group_members [OF g]
  have in_ms: "mb \<in> set (taggedMembers E ibs)" and t: "tagOf mb = sub_subId g"
    by simp_all
  from in_ms obtain ib c where "truthy (subId c)" "mb = memberOf ib c"
    by (auto simp: tagged_iff)
  with t show "subId (member_client mb) = Some (sub_subId g)" "sub_subId g \<noteq> []"
    by (auto simp: tagOf_def memberOf_def truthy_def)
  show "mb \<in> set (taggedMembers E ibs)" by (rule in_ms)
next
  show "map sub_subId (grouped (taggedMembers E ibs)) = firstSeen (map tagOf (taggedMembers E ibs))"
    by (rule ids_grouped)
  show "distinct (map sub_subId (grouped (taggedMembers E ibs)))"
    by (simp add: ids_grouped distinct_firstSeen)
next
  fix g
  assume "g \<in> set (grouped (taggedMembers E ibs))"
  then show "sub_clients g = filter (\<lambda>mb. tagOf mb = sub_subId g) (taggedMembers E ibs)"
    by (rule group_members)
next
  assume u: "unreadable E ib"
  show "taggedMembers E (xs @ ib # ys) = taggedMembers E (xs @ ys)"
    by (rule skip_unreadable(1) [OF u])
  show "\<exists>e. parseWarnings E (xs @ ib # ys) =
               parseWarnings E xs @ parseWarning ib e # parseWarnings E ys"
    by (rule skip_unreadable(2) [OF u])
qed

theorem subscription_grouping_witness:
  "getAllSubscriptions panel_env panel0 =
     (Inr (grouped (taggedMembers panel_env (listed panel0))),
      fold (warn panel_env) (parseWarnings panel_env (listed panel0)) panel0)
   \<and> map sub_subId (grouped (taggedMembers panel_env (listed panel0))) = [''family'', ''work'']
   \<and> map (\<lambda>g. map (\<lambda>mb. (inboundId mb, email (member_client mb))) (sub_clients g))
         (grouped (taggedMembers panel_env (listed panel0))) =
       [[(1, ''a1b2c3d4''), (3, ''e5f6g7h8'')], [(3, ''zzzz9999'')]]
   \<and> warnings (fold (warn panel_env) (parseWarnings panel_env (listed panel0)) panel0) =
       [''Failed to parse settings for inbound 2: SyntaxError: Unexpected token'']
   \<and> taggedMembers panel_env ([hd (listed panel0)] @ listed panel0 ! 1 # [listed panel0 ! 2]) =
       taggedMembers panel_env ([hd (listed panel0)] @ [listed panel0 ! 2])"
proof -
  let ?resp = "projr (fst (get panel_env (getPath ''/list'') panel0))"
  have h1: "get panel_env (getPath ''/list'') panel0 = (Inr ?resp, panel0)"
    by code_simp
  have h2: "success ?resp"
    by code_simp
  have h3: "obj ?resp = Some (InboundList (listed panel0))"
    by code_simp
  have h4: "unreadable panel_env (listed panel0 ! 1)"
    by code_simp
  note t = subscription_grouping [where E = panel_env and s = panel0 and resp = ?resp
      and ?s1.0 = panel0 and ibs = "listed panel0" and ib = "listed panel0 ! 1"
      and xs = "[hd (listed panel0)]" and ys = "[listed panel0 ! 2]"]
  have 1: "getAllSubscriptions panel_env panel0 =
     (Inr (grouped (taggedMembers panel_env (listed panel0))),
      fold (warn panel_env) (parseWarnings panel_env (listed panel0)) panel0)"
    by (rule t [THEN conjunct1, THEN mp]) (intro conjI h1 h2 h3)
  have 2: "map sub_subId (grouped (taggedMembers panel_env (listed panel0))) = [''family'', ''work'']"
    by code_simp
  have 3: "map (\<lambda>g. map (\<lambda>mb. (inboundId mb, email (member_client mb))) (sub_clients g))
         (grouped (taggedMembers panel_env (listed panel0))) =
       [[(1, ''a1b2c3d4''), (3, ''e5f6g7h8'')], [(3, ''zzzz9999'')]]"
    by code_simp
  have 4: "warnings (fold (warn panel_env) (parseWarnings panel_env (listed panel0)) panel0) =
       [''Failed to parse settings for inbound 2: SyntaxError: Unexpected token'']"
    by code_simp
  have 5: "taggedMembers panel_env ([hd (listed panel0)] @ listed panel0 ! 1 # [listed panel0 ! 2]) =
       taggedMembers panel_env ([hd (listed panel0)] @ [listed panel0 ! 2])"
    by (rule t [THEN conjunct2, THEN conjunct2, THEN conjunct2, THEN conjunct2, THEN conjunct2,
          THEN conjunct2, THEN conjunct2, THEN mp, THEN conjunct1]) (rule h4)
  show ?thesis by (intro conjI 1 2 3 4 5)
qed

section \<open>Properties of the mass operations\<close>

lemma find_absent:
  "sid \<notin> tagOf ` set ms \<Longrightarrow> find (\<lambda>sub. sub_subId sub = sid) (grouped ms) = None"
proof -
  assume a: "sid \<notin> tagOf ` set ms"
  have "\<And>g. g \<in> set (grouped ms) \<Longrightarrow> sub_subId g \<noteq> sid"
  proof -
    fix g assume "g \<in> set (grouped ms)"
    then have "sub_subId g \<in> set (map sub_subId (grouped ms))" by simp
    then have "sub_subId g \<in> tagOf ` set ms"
      by (simp only: ids_grouped set_firstSeen set_map)
    with a show "sub_subId g \<noteq> sid" by metis
  qed
  then show ?thesis by (simp add: find_None_iff)
qed

lemma delete_no_members:
  assumes "trim sid \<noteq> []" and "get E (getPath ''/list'') s = (Inr resp, s1)" and "success resp"
    and "obj resp = Some (InboundList ibs)"
    and none: "\<forall>ib \<in> set ibs. \<forall>c \<in> set (readClients E ib). subId c \<noteq> Some sid"
  shows "deleteClientsBySubId E sid s =
     (Inr \<lparr>success_total = 0, failed_total = 0, results = []\<rparr>,
      fold (warn E) (parseWarnings E ibs) s1)"
proof -
  have "sid \<notin> tagOf ` set (taggedMembers E ibs)"
    using none by (auto simp: tags_carried)
  then have "find (\<lambda>sub. sub_subId sub = sid) (grouped (taggedMembers E ibs)) = None"
    by (rule find_absent)
  then show ?thesis
    using assms(1-4)
    by (simp add: deleteClientsBySubId_def getSubscriptionById_def getAllSubscriptions_grouped)
qed

text \<open>
  C9. Let the subscription id be non-blank and the inbound list be fetched, with no client
  read from any inbound carrying that id. Then \<^verbatim>\<open>deleteClientsBySubId\<close> returns the report with
  both counts zero and no result; the state it leaves is the one the scan of the list left, and
  the outcome is the same whatever \<^verbatim>\<open>post\<close> would do: no delete call is issued.
\<close>

theorem delete_empty_subscription:
  "trim sid \<noteq> [] \<and> get E (getPath ''/list'') s = (Inr resp, s1) \<and> success resp
   \<and> obj resp = Some (InboundList ibs)
   \<and> (\<forall>ib \<in> set ibs. \<forall>c \<in> set (readClients E ib). subId c \<noteq> Some sid)
   \<longrightarrow> deleteClientsBySubId E sid s =
         (Inr \<lparr>success_total = 0, failed_total = 0, results = []\<rparr>,
          fold (warn E) (parseWarnings E ibs) s1)
       \<and> (\<forall>p. deleteClientsBySubId (E\<lparr>post := p\<rparr>) sid s = deleteClientsBySubId E sid s)"
proof (intro impI conjI allI)
  assume a: "trim sid \<noteq> [] \<and> get E (getPath ''/list'') s = (Inr resp, s1) \<and> success resp
   \<and> obj resp = Some (InboundList ibs)
   \<and> (\<forall>ib \<in> set ibs. \<forall>c \<in> set (readClients E ib). subId c \<noteq> Some sid)"
  then show 1: "deleteClientsBySubId E sid s =
         (Inr \<lparr>success_total = 0, failed_total = 0, results = []\<rparr>,
          fold (warn E) (parseWarnings E ibs) s1)"
    by (intro delete_no_members [where resp = resp]) simp_all
  fix p
  have same: "readClients (E\<lparr>post := p\<rparr>) = readClients E"
    "parseWarnings (E\<lparr>post := p\<rparr>) = parseWarnings E"
    by (simp_all add: fun_eq_iff readClients_def parseWarnings_def
        cong: option.case_cong settings_blob.case_cong map_cong)
  have "deleteClientsBySubId (E\<lparr>post := p\<rparr>) sid s =
         (Inr \<lparr>success_total = 0, failed_total = 0, results = []\<rparr>,
          fold (warn (E\<lparr>post := p\<rparr>)) (parseWarnings (E\<lparr>post := p\<rparr>) ibs) s1)"
  proof (rule delete_no_members [where resp = resp])
    show "trim sid \<noteq> []" "success resp" "obj resp = Some (InboundList ibs)"
      using a by simp_all
    show "get (E\<lparr>post := p\<rparr>) (getPath ''/list'') s = (Inr resp, s1)"
      using a by simp
    show "\<forall>ib \<in> set ibs. \<forall>c \<in> set (readClients (E\<lparr>post := p\<rparr>) ib). subId c \<noteq> Some sid"
      using a by (simp add: same)
  qed
  then show "deleteClientsBySubId (E\<lparr>post := p\<rparr>) sid s = deleteClientsBySubId E sid s"
    by (simp add: 1 same)
qed

theorem delete_empty_subscription_witness:
  "deleteClientsBySubId panel_env ''guests'' panel0 =
     (Inr \<lparr>success_total = 0, failed_total = 0, results = []\<rparr>,
      fold (warn panel_env) (parseWarnings panel_env (listed panel0)) panel0)
   \<and> deleted_paths (fold (warn panel_env) (parseWarnings panel_env (listed panel0)) panel0) = []"
proof -
  let ?resp = "projr (fst (get panel_env (getPath ''/list'') panel0))"
  have h0: "trim ''guests'' \<noteq> []"
    by code_simp
  have h1: "get panel_env (getPath ''/list'') panel0 = (Inr ?resp, panel0)"
    by code_simp
  have h2: "success ?resp"
    by code_simp
  have h3: "obj ?resp = Some (InboundList (listed panel0))"
    by code_simp
  have h4: "\<forall>ib \<in> set (listed panel0). \<forall>c \<in> set (readClients panel_env ib). subId c \<noteq> Some ''guests''"
    by code_simp
  note t = delete_empty_subscription [where E = panel_env and s = panel0 and resp = ?resp
      and ?s1.0 = panel0 and ibs = "listed panel0" and sid = "''guests''", THEN mp,
      OF conjI [OF h0 conjI [OF h1 conjI [OF h2 conjI [OF h3 h4]]]]]
  have 2: "deleted_paths (fold (warn panel_env) (parseWarnings panel_env (listed panel0)) panel0) = []"
    by code_simp
  show ?thesis by (intro conjI t [THEN conjunct1] 2)
qed

lemma observes_post:
  "observes E posted \<Longrightarrow> posted (snd (post E p (Some b) s)) = posted s @ [b]"
  by (simp add: observes_def)

lemma observes_get: "observes E posted \<Longrightarrow> posted (snd (get E p s)) = posted s"
  by (simp add: observes_def)

lemma observes_uuid: "observes E posted \<Longrightarrow> posted (snd (generateUUID E s)) = posted s"
  by (simp add: observes_def)

lemma observes_random: "observes E posted \<Longrightarrow> posted (snd (randomBelow E n s)) = posted s"
  by (simp add: observes_def)

lemma emailLoop_quiet:
  "observes E posted \<Longrightarrow> posted (snd (emailLoop E n acc s)) = posted s"
proof (induction n arbitrary: acc s)
  case 0
  then show ?case by simp
next
  case (Suc n)
  obtain k s1 where r: "randomBelow E 36 s = (k, s1)" by (cases "randomBelow E 36 s")
  have "posted s1 = posted s"
    using observes_random [OF Suc.prems, of 36 s] r by simp
  then show ?case using Suc.IH [OF Suc.prems] by (simp add: r)
qed

lemma create_quiet:
  assumes "observes E posted"
  shows "posted (snd (createClientForProtocol E ib r s)) = posted s"
proof -
  obtain em s1 where e: "generateRandomEmail E s = (em, s1)"
    by (cases "generateRandomEmail E s")
  have p1: "posted s1 = posted s"
    using emailLoop_quiet [OF assms, of 8 "[]" s] e by (simp add: generateRandomEmail_def)
  obtain u s2 where g: "generateUUID E s1 = (u, s2)" by (cases "generateUUID E s1")
  have p2: "posted s2 = posted s1"
    using observes_uuid [OF assms, of s1] g by simp
  obtain q s3 where h: "generateUUID E s2 = (q, s3)" by (cases "generateUUID E s2")
  have p3: "posted s3 = posted s2"
    using observes_uuid [OF assms, of s2] h by simp
  show ?thesis
    by (simp add: createClientForProtocol_def e g h p1 p2 p3 Let_def split: option.splits)
qed

lemma addClient_bodies:
  assumes "observes E posted"
  shows "(isl (fst (addClient E i c s)) \<and> posted (snd (addClient E i c s)) = posted s)
     \<or> (\<exists>b. posted (snd (addClient E i c s)) = posted s @ [b]
            \<and> body_id b = i \<and> body_clients b \<noteq> [] \<and> last (body_clients b) = c)"
proof (cases "validateInboundId i")
  case False
  then show ?thesis by (simp add: addClient_def)
next
  case valid: True
  show ?thesis
  proof (cases "validateClientData c")
    case (Some e)
    then show ?thesis using valid by (simp add: addClient_def)
  next
    case None
    obtain r1 s1 where g: "get E (getPath (''/get/'' @ show_int i)) s = (r1, s1)"
      by (cases "get E (getPath (''/get/'' @ show_int i)) s")
    have p1: "posted s1 = posted s"
      using observes_get [OF assms, of "getPath (''/get/'' @ show_int i)" s] g by simp
    show ?thesis
    proof (cases r1)
      case (Inl e)
      then show ?thesis using valid None p1 g by (simp add: addClient_def)
    next
      case (Inr resp)
      show ?thesis
      proof (cases "\<not> success resp \<or> obj resp = None")
        case True
        then show ?thesis using valid None p1 Inr g by (simp add: addClient_def)
      next
        case False
        let ?cur = "currentSettings (the (obj resp))"
        let ?b = "\<lparr>body_id = i, body_base = ?cur, body_clients = currentClients ?cur @ [c]\<rparr>"
        obtain r2 s2 where po: "post E (getPath ''/addClient'') (Some ?b) s1 = (r2, s2)"
          by (cases "post E (getPath ''/addClient'') (Some ?b) s1")
        have p2: "posted s2 = posted s1 @ [?b]"
          using observes_post [OF assms, of "getPath ''/addClient''" ?b s1] po by simp
        have "snd (addClient E i c s) = s2"
          using valid None Inr False g po by (cases r2) (auto simp: addClient_def Let_def)
        then have "posted (snd (addClient E i c s)) = posted s @ [?b]"
          using p1 p2 by simp
        then show ?thesis by simp
      qed
    qed
  qed
qed

lemma attempt_bodies:
  assumes obs: "observes E posted"
  shows "(isl (fst (attemptTarget E r ib s)) \<and> posted (snd (attemptTarget E r ib s)) = posted s)
     \<or> (\<exists>b. posted (snd (attemptTarget E r ib s)) = posted s @ [b]
            \<and> body_id b = inbound_id ib \<and> body_clients b \<noteq> []
            \<and> last (body_clients b) = fst (createClientForProtocol E ib r s))"
  using addClient_bodies [OF obs, of "inbound_id ib" "fst (createClientForProtocol E ib r s)"
      "snd (createClientForProtocol E ib r s)"] create_quiet [OF obs, of ib r s]
  by (simp add: attemptTarget_def)

lemma createLoop_step:
  "createLoop E r (ib # rest) acc s =
     createLoop E r rest
       (acc\<lparr>results := results acc @ [resultOf (hd (attempts E r (ib # rest) s))],
            success_total := success_total acc + (if isl (fst (attemptTarget E r ib s)) then 0 else 1),
            failed_total := failed_total acc + (if isl (fst (attemptTarget E r ib s)) then 1 else 0)\<rparr>)
       (snd (attemptTarget E r ib s))"
proof -
  obtain c s1 where cr: "createClientForProtocol E ib r s = (c, s1)"
    by (cases "createClientForProtocol E ib r s")
  obtain res s2 where ad: "addClient E (inbound_id ib) c s1 = (res, s2)"
    by (cases "addClient E (inbound_id ib) c s1")
  show ?thesis
    by (cases res) (simp_all add: cr ad attemptTarget_def resultOf_def)
qed

lemma createLoop_attempts:
  "results (fst (createLoop E r ibs acc s)) = results acc @ map resultOf (attempts E r ibs s)
   \<and> failed_total (fst (createLoop E r ibs acc s)) =
       failed_total acc + int (length (filter (\<lambda>a. isl (att_outcome a)) (attempts E r ibs s)))
   \<and> success_total (fst (createLoop E r ibs acc s)) =
       success_total acc + int (length (filter (\<lambda>a. \<not> isl (att_outcome a)) (attempts E r ibs s)))
   \<and> snd (createLoop E r ibs acc s) = lastState s (attempts E r ibs s)"
proof (induction ibs arbitrary: acc s)
  case Nil
  show ?case by (simp add: lastState_def)
next
  case (Cons ib ibs)
  have last: "lastState s (attempts E r (ib # ibs) s)
      = lastState (snd (attemptTarget E r ib s)) (attempts E r ibs (snd (attemptTarget E r ib s)))"
    by (simp add: lastState_def)
  show ?case
    unfolding createLoop_step last
    by (simp add: Cons.IH del: createLoop.simps)
qed

lemma attempts_targets: "map att_target (attempts E r ibs s) = ibs"
  by (induction ibs arbitrary: s) simp_all

lemma attempts_clients:
  "a \<in> set (attempts E r ibs s) \<Longrightarrow> subId (att_client a) = req_subId r"
  by (induction ibs arbitrary: s) (auto simp: subId_created)

lemma attempts_bodies:
  assumes obs: "observes E posted"
  shows "a \<in> set (attempts E r ibs s) \<Longrightarrow>
     (isl (att_outcome a) \<and> postedBy posted a = [])
     \<or> (\<exists>b. postedBy posted a = [b] \<and> body_id b = inbound_id (att_target a)
            \<and> body_clients b \<noteq> [] \<and> last (body_clients b) = att_client a)"
proof (induction ibs arbitrary: s)
  case Nil
  then show ?case by simp
next
  case (Cons ib ibs)
  from Cons.prems consider
    (here) "a = \<lparr>att_target = ib, att_client = fst (createClientForProtocol E ib r s),
      att_outcome = fst (attemptTarget E r ib s), att_before = s,
      att_after = snd (attemptTarget E r ib s)\<rparr>"
    | (later) "a \<in> set (attempts E r ibs (snd (attemptTarget E r ib s)))"
    by auto
  then show ?case
  proof cases
    case here
    from attempt_bodies [OF obs, of r ib s] show ?thesis
      by (auto simp: here postedBy_def)
  next
    case later
    then show ?thesis by (rule Cons.IH)
  qed
qed

lemma attempts_posted:
  assumes obs: "observes E posted"
  shows "posted (lastState s (attempts E r ibs s))
     = posted s @ concat (map (postedBy posted) (attempts E r ibs s))"
proof (induction ibs arbitrary: s)
  case Nil
  show ?case by (simp add: lastState_def)
next
  case (Cons ib ibs)
  let ?t = "snd (attemptTarget E r ib s)"
  let ?a = "\<lparr>att_target = ib, att_client = fst (createClientForProtocol E ib r s),
      att_outcome = fst (attemptTarget E r ib s), att_before = s, att_after = ?t\<rparr>"
  have last: "lastState s (attempts E r (ib # ibs) s) = lastState ?t (attempts E r ibs ?t)"
    by (simp add: lastState_def)
  have here: "posted ?t = posted s @ postedBy posted ?a"
    using attempt_bodies [OF obs, of r ib s] by (auto simp: postedBy_def)
  show ?case
    unfolding last by (simp add: Cons.IH here)
qed


lemma withSubId_cases:
  "truthy (req_subId req) \<Longrightarrow> withSubId E req s = (req, s)"
  "\<not> truthy (req_subId req) \<Longrightarrow>
     withSubId E req s = (req\<lparr>req_subId := Some (fst (generateUUID E s))\<rparr>, snd (generateUUID E s))"
  by (simp_all add: withSubId_def split: prod.splits)

lemma withSubId_quiet:
  "observes E posted \<Longrightarrow> posted (snd (withSubId E req s)) = posted s"
  by (cases "truthy (req_subId req)") (simp_all add: withSubId_cases observes_uuid)

text \<open>
  C2. \<open>posted\<close> is any record of the bodies handed to \<^verbatim>\<open>post\<close>. Let the request be valid and
  the inbound list be fetched, and take the passes of the run over that list: one for each
  inbound, in the order of the list, each calling \<^verbatim>\<open>addClient\<close> with the client that
  \<^verbatim>\<open>createClientForProtocol\<close> made for its inbound, in the state the pass before it left. Then
  \<^verbatim>\<open>createClientOnAllInbounds\<close> returns a report and leaves the state of the last pass. The
  report has one result for each pass, in that order, naming the inbound of the pass and
  recording a success exactly when \<^verbatim>\<open>addClient\<close> returned there, and otherwise the message of
  the error it threw; the failed count is the number of passes in which \<^verbatim>\<open>addClient\<close> threw,
  which is the number of results that record a failure, and the success count is the number
  of inbounds less the failed count. The client of every pass carries the subscription id of
  the request as it stands after the first step. What the run posted is what its passes
  posted, in order: a pass whose \<^verbatim>\<open>addClient\<close> returned posted exactly one body, a pass whose
  \<^verbatim>\<open>addClient\<close> threw posted one body or none, and a body posted by a pass is addressed to the
  inbound of the pass and ends with its client; so every body posted in the run ends with a
  client that carries that one subscription id. The first step keeps a request that has an
  id, and gives a request without one the identifier drawn once from the initial state, before
  the list is fetched.
\<close>

theorem mass_creation_accounting:
  "(observes E posted \<and> validateMassClientRequest req = None \<and> withSubId E req s = (r, s0)
    \<and> get E (getPath ''/list'') s0 = (Inr resp, s1) \<and> success resp
    \<and> obj resp = Some (InboundList ibs)
    \<longrightarrow> (\<exists>report s2.
          createClientOnAllInbounds E req s = (Inr report, s2)
          \<and> s2 = lastState s1 (attempts E r ibs s1)
          \<and> map att_target (attempts E r ibs s1) = ibs
          \<and> results report = map resultOf (attempts E r ibs s1)
          \<and> length (results report) = length ibs
          \<and> map targetOfResult (results report) = map targetOf ibs
          \<and> failed_total report =
              int (length (filter (\<lambda>a. isl (att_outcome a)) (attempts E r ibs s1)))
          \<and> failed_total report = int (length (filter (\<lambda>x. \<not> created_success x) (results report)))
          \<and> success_total report = int (length ibs) - failed_total report
          \<and> posted s2 = posted s @ concat (map (postedBy posted) (attempts E r ibs s1))
          \<and> (\<forall>a \<in> set (attempts E r ibs s1).
                subId (att_client a) = req_subId r
                \<and> ((isl (att_outcome a) \<and> postedBy posted a = [])
                    \<or> (\<exists>b. postedBy posted a = [b] \<and> body_id b = inbound_id (att_target a)
                           \<and> body_clients b \<noteq> [] \<and> last (body_clients b) = att_client a)))
          \<and> (\<forall>b \<in> set (concat (map (postedBy posted) (attempts E r ibs s1))).
                body_clients b \<noteq> [] \<and> subId (last (body_clients b)) = req_subId r)))
   \<and> (truthy (req_subId req) \<longrightarrow> withSubId E req s = (req, s))
   \<and> (\<not> truthy (req_subId req) \<longrightarrow>
        withSubId E req s =
          (req\<lparr>req_subId := Some (fst (generateUUID E s))\<rparr>, snd (generateUUID E s)))"
proof (intro conjI impI)
  assume a: "observes E posted \<and> validateMassClientRequest req = None \<and> withSubId E req s = (r, s0)
    \<and> get E (getPath ''/list'') s0 = (Inr resp, s1) \<and> success resp
    \<and> obj resp = Some (InboundList ibs)"
  then have obs: "observes E posted" by simp
  let ?z = "\<lparr>success_total = 0, failed_total = 0, results = [] :: create_result list\<rparr>"
  let ?out = "createLoop E r ibs ?z s1"
  let ?as = "attempts E r ibs s1"
  have run: "createClientOnAllInbounds E req s = (Inr (fst ?out), snd ?out)"
    using a by (simp add: createClientOnAllInbounds_def Let_def split: prod.splits)
  have l: "results (fst ?out) = map resultOf ?as"
    "failed_total (fst ?out) = int (length (filter (\<lambda>a. isl (att_outcome a)) ?as))"
    "success_total (fst ?out) = int (length (filter (\<lambda>a. \<not> isl (att_outcome a)) ?as))"
    "snd ?out = lastState s1 ?as"
    using createLoop_attempts [of E r ibs ?z s1] by simp_all
  have tg: "map att_target ?as = ibs"
    by (rule attempts_targets)
  have len: "length ?as = length ibs"
    using tg by (metis length_map)
  have flag: "\<And>a. created_success (resultOf a) = (\<not> isl (att_outcome a))"
    by (simp add: resultOf_def split: sum.splits)
  have names: "\<And>a. targetOfResult (resultOf a) = targetOf (att_target a)"
    by (simp add: resultOf_def targetOfResult_def targetOf_def split: sum.splits)
  have split: "length (filter (\<lambda>a. \<not> isl (att_outcome a)) ?as)
      + length (filter (\<lambda>a. isl (att_outcome a)) ?as) = length ?as"
    using sum_length_filter_compl [of "\<lambda>a. \<not> isl (att_outcome a)" ?as] by simp
  have p0: "posted s0 = posted s"
    using withSubId_quiet [OF obs, of req s] a by simp
  have p1: "posted s1 = posted s0"
    using observes_get [OF obs, of "getPath ''/list''" s0] a by simp
  have each: "\<forall>a \<in> set ?as.
                subId (att_client a) = req_subId r
                \<and> ((isl (att_outcome a) \<and> postedBy posted a = [])
                    \<or> (\<exists>b. postedBy posted a = [b] \<and> body_id b = inbound_id (att_target a)
                           \<and> body_clients b \<noteq> [] \<and> last (body_clients b) = att_client a))"
    using attempts_clients [of _ E r ibs s1] attempts_bodies [OF obs, of _ r ibs s1] by blast
  have all: "\<forall>b \<in> set (concat (map (postedBy posted) ?as)).
                body_clients b \<noteq> [] \<and> subId (last (body_clients b)) = req_subId r"
  proof
    fix b assume "b \<in> set (concat (map (postedBy posted) ?as))"
    then obtain a where m: "a \<in> set ?as" and b: "b \<in> set (postedBy posted a)" by auto
    from each m b have "postedBy posted a = [b]" "body_clients b \<noteq> []"
      "last (body_clients b) = att_client a" "subId (att_client a) = req_subId r"
      by auto
    then show "body_clients b \<noteq> [] \<and> subId (last (body_clients b)) = req_subId r" by simp
  qed
  show "\<exists>report s2.
          createClientOnAllInbounds E req s = (Inr report, s2)
          \<and> s2 = lastState s1 (attempts E r ibs s1)
          \<and> map att_target (attempts E r ibs s1) = ibs
          \<and> results report = map resultOf (attempts E r ibs s1)
          \<and> length (results report) = length ibs
          \<and> map targetOfResult (results report) = map targetOf ibs
          \<and> failed_total report =
              int (length (filter (\<lambda>a. isl (att_outcome a)) (attempts E r ibs s1)))
          \<and> failed_total report = int (length (filter (\<lambda>x. \<not> created_success x) (results report)))
          \<and> success_total report = int (length ibs) - failed_total report
          \<and> posted s2 = posted s @ concat (map (postedBy posted) (attempts E r ibs s1))
          \<and> (\<forall>a \<in> set (attempts E r ibs s1).
                subId (att_client a) = req_subId r
                \<and> ((isl (att_outcome a) \<and> postedBy posted a = [])
                    \<or> (\<exists>b. postedBy posted a = [b] \<and> body_id b = inbound_id (att_target a)
                           \<and> body_clients b \<noteq> [] \<and> last (body_clients b) = att_client a)))
          \<and> (\<forall>b \<in> set (concat (map (postedBy posted) (attempts E r ibs s1))).
                body_clients b \<noteq> [] \<and> subId (last (body_clients b)) = req_subId r)"
  proof (intro exI [of _ "fst ?out"] exI [of _ "snd ?out"] conjI)
    show "createClientOnAllInbounds E req s = (Inr (fst ?out), snd ?out)" by (rule run)
    show "snd ?out = lastState s1 ?as" by (rule l(4))
    show "map att_target ?as = ibs" by (rule tg)
    show "results (fst ?out) = map resultOf ?as" by (rule l(1))
    show "length (results (fst ?out)) = length ibs" using l(1) len by simp
    show "map targetOfResult (results (fst ?out)) = map targetOf ibs"
    proof -
      have "map targetOfResult (map resultOf ?as) = map targetOf (map att_target ?as)"
        by (simp add: names)
      then show ?thesis using l(1) tg by simp
    qed
    show "failed_total (fst ?out) = int (length (filter (\<lambda>a. isl (att_outcome a)) ?as))"
      by (rule l(2))
    show "failed_total (fst ?out) =
        int (length (filter (\<lambda>x. \<not> created_success x) (results (fst ?out))))"
      by (simp add: l(1,2) filter_map o_def flag)
    show "success_total (fst ?out) = int (length ibs) - failed_total (fst ?out)"
      using l(2,3) len split by simp
    show "posted (snd ?out) = posted s @ concat (map (postedBy posted) ?as)"
      using attempts_posted [OF obs, of s1 r ibs] l(4) p0 p1 by simp
    show "\<forall>a \<in> set ?as.
                subId (att_client a) = req_subId r
                \<and> ((isl (att_outcome a) \<and> postedBy posted a = [])
                    \<or> (\<exists>b. postedBy posted a = [b] \<and> body_id b = inbound_id (att_target a)
                           \<and> body_clients b \<noteq> [] \<and> last (body_clients b) = att_client a))"
      by (rule each)
    show "\<forall>b \<in> set (concat (map (postedBy posted) ?as)).
                body_clients b \<noteq> [] \<and> subId (last (body_clients b)) = req_subId r"
      by (rule all)
  qed
next
  assume "truthy (req_subId req)"
  then show "withSubId E req s = (req, s)" by (rule withSubId_cases)
next
  assume "\<not> truthy (req_subId req)"
  then show "withSubId E req s =
          (req\<lparr>req_subId := Some (fst (generateUUID E s))\<rparr>, snd (generateUUID E s))"
    by (rule withSubId_cases)
qed

theorem mass_creation_accounting_witness:
  "(\<exists>report s2.
      createClientOnAllInbounds panel_env plain_request panel0 = (Inr report, s2)
      \<and> results report =
          [\<lparr>created_inboundId = 1, created_inboundRemark = ''in-1'', created_protocol = ''vless'',
            created_success = True, created_error = None\<rparr>,
           \<lparr>created_inboundId = 2, created_inboundRemark = ''in-2'', created_protocol = ''trojan'',
            created_success = False,
            created_error = Some ''Failed to add client Context: {..}''\<rparr>,
           \<lparr>created_inboundId = 3, created_inboundRemark = ''in-3'', created_protocol = ''vmess'',
            created_success = True, created_error = None\<rparr>]
      \<and> failed_total report = 1
      \<and> success_total report = 2
      \<and> map (\<lambda>b. (body_id b, length (body_clients b), email (last (body_clients b)),
                    subId (last (body_clients b)))) (posted_bodies s2) =
          [(1, 3, ''bcdefghi'', Some ''uuid-0''), (2, 1, ''klmnopqr'', Some ''uuid-0''),
           (3, 3, ''uvwxyz01'', Some ''uuid-0'')])
   \<and> req_subId (fst (withSubId panel_env plain_request panel0)) = Some ''uuid-0''"
proof -
  let ?r = "fst (withSubId panel_env plain_request panel0)"
  let ?s0 = "snd (withSubId panel_env plain_request panel0)"
  let ?resp = "projr (fst (get panel_env (getPath ''/list'') ?s0))"
  let ?as = "attempts panel_env ?r (listed panel0) ?s0"
  have obs: "observes panel_env posted_bodies"
    by (simp add: observes_def panel_env_def split: option.splits)
  have h1: "validateMassClientRequest plain_request = None"
    by code_simp
  have h2: "withSubId panel_env plain_request panel0 = (?r, ?s0)"
    by simp
  have h3: "get panel_env (getPath ''/list'') ?s0 = (Inr ?resp, ?s0)"
    by code_simp
  have h4: "success ?resp"
    by code_simp
  have h5: "obj ?resp = Some (InboundList (listed panel0))"
    by code_simp
  note t = mass_creation_accounting [where E = panel_env and posted = posted_bodies
      and req = plain_request and s = panel0 and r = ?r and ?s0.0 = ?s0 and resp = ?resp
      and ?s1.0 = ?s0 and ibs = "listed panel0", THEN conjunct1, THEN mp,
      OF conjI [OF obs conjI [OF h1 conjI [OF h2 conjI [OF h3 conjI [OF h4 h5]]]]]]
  from t obtain report s2 where
    run: "createClientOnAllInbounds panel_env plain_request panel0 = (Inr report, s2)"
    and st: "s2 = lastState ?s0 ?as"
    and rs: "results report = map resultOf ?as"
    and ft: "failed_total report = int (length (filter (\<lambda>a. isl (att_outcome a)) ?as))"
    and su: "success_total report = int (length (listed panel0)) - failed_total report"
    by blast
  have e1: "map resultOf ?as =
          [\<lparr>created_inboundId = 1, created_inboundRemark = ''in-1'', created_protocol = ''vless'',
            created_success = True, created_error = None\<rparr>,
           \<lparr>created_inboundId = 2, created_inboundRemark = ''in-2'', created_protocol = ''trojan'',
            created_success = False,
            created_error = Some ''Failed to add client Context: {..}''\<rparr>,
           \<lparr>created_inboundId = 3, created_inboundRemark = ''in-3'', created_protocol = ''vmess'',
            created_success = True, created_error = None\<rparr>]"
    by code_simp
  have e2: "int (length (filter (\<lambda>a. isl (att_outcome a)) ?as)) = 1"
    by code_simp
  have e3: "int (length (listed panel0)) = 3"
    by code_simp
  have e4: "map (\<lambda>b. (body_id b, length (body_clients b), email (last (body_clients b)),
                    subId (last (body_clients b)))) (posted_bodies (lastState ?s0 ?as)) =
          [(1, 3, ''bcdefghi'', Some ''uuid-0''), (2, 1, ''klmnopqr'', Some ''uuid-0''),
           (3, 3, ''uvwxyz01'', Some ''uuid-0'')]"
    by code_simp
  have 2: "req_subId ?r = Some ''uuid-0''"
    by code_simp
  have f1: "failed_total report = 1" using ft e2 by (simp only:)
  have f2: "success_total report = 2" using su f1 e3 by (simp only:)
  show ?thesis
    apply (intro conjI exI [of _ report] exI [of _ s2] run f1 f2 2)
     apply (simp only: rs e1)
    apply (simp only: st e4)
    done
qed

end
